theory Spec2Isabelle
  imports Complex_Main
begin

section \<open>Python strings\<close>

text \<open>
  A Python \<open>str\<close> is a sequence of code points. It is modelled as a \<^typ>\<open>string\<close>, each
  \<^typ>\<open>char\<close> standing for one code point below 256, and the three character classes
  the safety gate depends on are those of Python for that range:
  \<open>str.isspace\<close> (what \<open>strip()\<close> removes), \<open>str.lower\<close>, and the class \<open>\w\<close> of the
  \<open>re\<close> module for \<open>str\<close> patterns (alphanumeric or underscore).
\<close>

definition is_space :: "char \<Rightarrow> bool" where
  "is_space c =
     (let n = (of_char c :: nat)
      in (9 \<le> n \<and> n \<le> 13) \<or> (28 \<le> n \<and> n \<le> 32) \<or> n = 133 \<or> n = 160)"

definition lower_char :: "char \<Rightarrow> char" where
  "lower_char c =
     (let n = (of_char c :: nat)
      in if (65 \<le> n \<and> n \<le> 90) \<or> (192 \<le> n \<and> n \<le> 214) \<or> (216 \<le> n \<and> n \<le> 222)
         then char_of (n + 32) else c)"

definition is_word :: "char \<Rightarrow> bool" where
  "is_word c =
     (let n = (of_char c :: nat)
      in (48 \<le> n \<and> n \<le> 57) \<or> (65 \<le> n \<and> n \<le> 90) \<or> n = 95 \<or> (97 \<le> n \<and> n \<le> 122)
         \<or> n = 170 \<or> n = 178 \<or> n = 179 \<or> n = 181 \<or> n = 185 \<or> n = 186
         \<or> (188 \<le> n \<and> n \<le> 190) \<or> (192 \<le> n \<and> n \<le> 214) \<or> (216 \<le> n \<and> n \<le> 246)
         \<or> 248 \<le> n)"

text \<open>\<open>s.lower()\<close>\<close>

definition py_lower :: "string \<Rightarrow> string" where
  "py_lower s = map lower_char s"

text \<open>\<open>s.strip()\<close>: leading and trailing whitespace removed.\<close>

definition py_lstrip :: "string \<Rightarrow> string" where
  "py_lstrip s = dropWhile is_space s"

definition py_rstrip :: "string \<Rightarrow> string" where
  "py_rstrip s = rev (dropWhile is_space (rev s))"

definition py_strip :: "string \<Rightarrow> string" where
  "py_strip s = py_rstrip (py_lstrip s)"

text \<open>\<open>s.endswith(c)\<close> and \<open>s.startswith(p)\<close>\<close>

definition endswith :: "string \<Rightarrow> char \<Rightarrow> bool" where
  "endswith s c = (s \<noteq> [] \<and> last s = c)"

definition startswith :: "string \<Rightarrow> string \<Rightarrow> bool" where
  "startswith s p = (take (length p) s = p)"

text \<open>
  \<open>s.split(sep)\<close> for a one-character separator: the pieces between the separators, in
  order; the result is never empty.
\<close>

fun py_split :: "char \<Rightarrow> string \<Rightarrow> string list" where
  "py_split sep [] = [[]]"
| "py_split sep (c # cs) =
     (if c = sep then [] # py_split sep cs
      else (case py_split sep cs of
              [] \<Rightarrow> [[c]]
            | piece # pieces \<Rightarrow> (c # piece) # pieces))"

text \<open>\<open>sep.join(xs)\<close>\<close>

fun py_join :: "string \<Rightarrow> string list \<Rightarrow> string" where
  "py_join sep [] = []"
| "py_join sep [x] = x"
| "py_join sep (x # y # ys) = x @ sep @ py_join sep (y # ys)"

text \<open>
  \<open>re.search(r'\b' + re.escape(keyword) + r'\b', s)\<close> for a keyword of letters, which
  \<open>re.escape\<close> leaves as it is. \<open>\b\<close> holds at position \<open>i\<close> when exactly one of the
  characters before and after the position is a word character, the two ends of the string
  counting as non-word. The search succeeds when the keyword occurs at some position with
  a boundary on both sides.
\<close>

definition word_boundary :: "string \<Rightarrow> nat \<Rightarrow> bool" where
  "word_boundary s i =
     ((0 < i \<and> is_word (s ! (i - 1))) \<noteq> (i < length s \<and> is_word (s ! i)))"

definition matches_at :: "string \<Rightarrow> string \<Rightarrow> nat \<Rightarrow> bool" where
  "matches_at keyword s i =
     (word_boundary s i \<and> take (length keyword) (drop i s) = keyword
      \<and> word_boundary s (i + length keyword))"

definition re_search_word :: "string \<Rightarrow> string \<Rightarrow> bool" where
  "re_search_word keyword s = list_ex (matches_at keyword s) [0..<Suc (length s)]"

section \<open>The SQL safety gate (utils/helpers.py)\<close>

definition dangerous_keywords :: "string list" where
  "dangerous_keywords =
     [''drop'', ''delete'', ''truncate'', ''alter'', ''create'', ''insert'', ''update'',
      ''grant'', ''revoke'', ''commit'', ''rollback'', ''savepoint'', ''merge'']"

text \<open>The loop over the keywords, returning \<open>False\<close> at the first one found.\<close>

fun check_keywords :: "string list \<Rightarrow> string \<Rightarrow> bool" where
  "check_keywords [] query_lower = True"
| "check_keywords (keyword # rest) query_lower =
     (if re_search_word keyword query_lower then False
      else check_keywords rest query_lower)"

definition validate_sql_query :: "string \<Rightarrow> bool" where
  "validate_sql_query sql_query =
     (let query_lower = py_strip (py_lower sql_query)
      in check_keywords dangerous_keywords query_lower)"

text \<open>
  The value of \<open>sanitized\<close> after the first two steps of \<open>sanitize_sql_query\<close>:
  trimmed, and one trailing semicolon removed.
\<close>

definition without_trailing_terminator :: "string \<Rightarrow> string" where
  "without_trailing_terminator sql_query =
     (let sanitized = py_strip sql_query
      in if endswith sanitized (CHR '';'') then butlast sanitized else sanitized)"

definition sanitize_sql_query :: "string \<Rightarrow> string" where
  "sanitize_sql_query sql_query =
     (let sanitized = py_strip sql_query;
          sanitized = (if endswith sanitized (CHR '';'') then butlast sanitized
                       else sanitized);
          sanitized = (if CHR '';'' \<in> set (butlast sanitized)
                       then py_strip (hd (py_split (CHR '';'') sanitized))
                       else sanitized)
      in sanitized)"

definition validate_and_sanitize_query :: "string \<Rightarrow> bool \<times> string" where
  "validate_and_sanitize_query sql_query =
     (let sanitized_query = sanitize_sql_query sql_query;
          is_valid = validate_sql_query sanitized_query
      in (is_valid, sanitized_query))"


section \<open>\<open>repr\<close> of a string\<close>

text \<open>
  \<open>repr(s)\<close> for a string of code points below 256: the quotes are single unless the
  string has a single quote and no double quote; the quote character and the backslash
  are escaped with a backslash; tab, newline and carriage return are written \<open>\t\<close>,
  \<open>\n\<close>, \<open>\r\<close>; every other character that is not printable (\<open>str.isprintable\<close>) is
  written \<open>\xNN\<close> with two lower-case hexadecimal digits.
\<close>

definition is_printable :: "char \<Rightarrow> bool" where
  "is_printable c =
     (let n = (of_char c :: nat)
      in (32 \<le> n \<and> n \<le> 126) \<or> (161 \<le> n \<and> n \<noteq> 173))"

definition hex_digit :: "nat \<Rightarrow> char" where
  "hex_digit d = (if d < 10 then char_of (48 + d) else char_of (87 + d))"

definition repr_char :: "char \<Rightarrow> char \<Rightarrow> string" where
  "repr_char quote c =
     (let n = (of_char c :: nat)
      in if c = quote \<or> c = CHR 0x5C then [CHR 0x5C, c]
         else if n = 9 then [CHR 0x5C, CHR ''t'']
         else if n = 10 then [CHR 0x5C, CHR ''n'']
         else if n = 13 then [CHR 0x5C, CHR ''r'']
         else if is_printable c then [c]
         else [CHR 0x5C, CHR ''x'', hex_digit (n div 16), hex_digit (n mod 16)])"

definition py_repr :: "string \<Rightarrow> string" where
  "py_repr s =
     (let quote = (if CHR 0x27 \<in> set s \<and> CHR 0x22 \<notin> set s then CHR 0x22 else CHR 0x27)
      in [quote] @ concat (map (repr_char quote) s) @ [quote])"

section \<open>Exceptions\<close>

text \<open>
  The exceptions the modelled code can meet. A function that may raise returns \<open>Inl\<close> of
  the exception. \<open>KeyError\<close> (with the missing key), \<open>IndexError\<close> (with its message) and
  \<open>AssertionError\<close> (without a message) are raised by the modelled code itself or by the
  vector index; \<open>OtherException\<close> is any other instance of \<open>Exception\<close> raised by an
  external collaborator (embedding model, generative model, database), with the name of
  its class and its text; \<open>KeyboardInterrupt\<close> and \<open>SystemExit\<close> are the exceptions
  outside the \<open>Exception\<close> hierarchy, which an \<open>except Exception\<close> clause does not catch.
\<close>

datatype exn =
  KeyError string
  | IndexError string
  | AssertionError
  | OtherException string string
  | KeyboardInterrupt
  | SystemExit string

text \<open>\<open>isinstance(e, Exception)\<close>\<close>

fun is_Exception :: "exn \<Rightarrow> bool" where
  "is_Exception KeyboardInterrupt = False"
| "is_Exception (SystemExit m) = False"
| "is_Exception e = True"

text \<open>\<open>type(e).__name__\<close>\<close>

fun exn_class :: "exn \<Rightarrow> string" where
  "exn_class (KeyError k) = ''KeyError''"
| "exn_class (IndexError m) = ''IndexError''"
| "exn_class AssertionError = ''AssertionError''"
| "exn_class (OtherException c m) = c"
| "exn_class KeyboardInterrupt = ''KeyboardInterrupt''"
| "exn_class (SystemExit m) = ''SystemExit''"

text \<open>\<open>str(e)\<close>: a \<open>KeyError\<close> prints the \<open>repr\<close> of its key, the others their message.\<close>

fun str_exn :: "exn \<Rightarrow> string" where
  "str_exn (KeyError k) = py_repr k"
| "str_exn (IndexError m) = m"
| "str_exn AssertionError = []"
| "str_exn (OtherException c m) = m"
| "str_exn KeyboardInterrupt = []"
| "str_exn (SystemExit m) = m"

text \<open>
  \<open>xs[i]\<close> on a Python list: a negative index counts from the end, and an index outside
  \<open>-len(xs) .. len(xs) - 1\<close> raises \<open>IndexError\<close>.
\<close>

definition py_getitem :: "'a list \<Rightarrow> int \<Rightarrow> exn + 'a" where
  "py_getitem xs i =
     (if 0 \<le> i \<and> i < int (length xs) then Inr (xs ! nat i)
      else if i < 0 \<and> - int (length xs) \<le> i then Inr (xs ! nat (int (length xs) + i))
      else Inl (IndexError ''list index out of range''))"

text \<open>\<open>str(n)\<close> for a non-negative integer.\<close>

fun str_nat :: "nat \<Rightarrow> string" where
  "str_nat n =
     (if n < 10 then [char_of (48 + n)]
      else str_nat (n div 10) @ [char_of (48 + n mod 10)])"

text \<open>
  The text of a list of strings inside an f-string, \<open>['a', 'b']\<close>: the \<open>repr\<close> of each
  element, separated by commas.
\<close>

definition py_repr_list :: "string list \<Rightarrow> string" where
  "py_repr_list xs = ''['' @ py_join '', '' (map py_repr xs) @ '']''"

section \<open>Table descriptors (core/rag_system.py)\<close>

text \<open>
  The dictionaries of the source are records. A field of type \<open>option\<close> is a key that
  may be missing: \<open>d['k']\<close> raises \<open>KeyError\<close> on \<open>None\<close>, \<open>d.get('k', v)\<close> returns \<open>v\<close>.
\<close>

record column =
  col_name :: "string option"
  col_type :: "string option"
  col_nullable :: "bool option"
  col_default :: "string option"
  col_primary_key :: "bool option"
  col_foreign_key :: "bool option"

record foreign_key =
  constrained_columns :: "string list option"
  referred_table :: "string option"
  referred_columns :: "string list option"

text \<open>One entry of the caller-supplied \<open>custom_table_descriptions\<close>.\<close>

record custom_table =
  ct_name :: "string option"
  ct_columns :: "column list option"
  ct_primary_keys :: "string list option"
  ct_foreign_keys :: "foreign_key list option"

text \<open>
  What the database inspector reports for one table: its name, \<open>get_columns\<close> and
  \<open>get_foreign_keys\<close>. The inspector always supplies a column's name and type and the
  three fields of a foreign key.
\<close>

record reflected_column =
  rc_name :: string
  rc_type :: string
  rc_nullable :: "bool option"
  rc_default :: "string option"
  rc_primary_key :: "bool option"

record reflected_fk =
  rf_constrained_columns :: "string list"
  rf_referred_table :: string
  rf_referred_columns :: "string list"

record reflected_table =
  rt_name :: string
  rt_columns :: "reflected_column list"
  rt_foreign_keys :: "reflected_fk list"

record table_description =
  name :: string
  columns :: "column list"
  primary_keys :: "string list"
  foreign_keys :: "foreign_key list"
  is_custom :: bool
  text_description :: string

text \<open>
  The text added for one column: name and type, \<open>(primary key)\<close> when
  \<open>col.get('primary_key')\<close> is true, \<open>(not null)\<close> when \<open>col.get('nullable', True) == False\<close>,
  and a comma unless the column is the last one.
\<close>

definition column_text :: "string \<Rightarrow> string \<Rightarrow> bool option \<Rightarrow> bool option \<Rightarrow> bool \<Rightarrow> string" where
  "column_text n t pk nullable is_last =
     n @ '' of type '' @ t
       @ (if pk = Some True then '' (primary key)'' else [])
       @ (if nullable = Some False then '' (not null)'' else [])
       @ (if \<not> is_last then '', '' else [])"

fun reflected_columns_text :: "reflected_column list \<Rightarrow> string" where
  "reflected_columns_text [] = []"
| "reflected_columns_text (col # rest) =
     column_text (rc_name col) (rc_type col) (rc_primary_key col) (rc_nullable col) (rest = [])
       @ reflected_columns_text rest"

fun columns_text :: "column list \<Rightarrow> exn + string" where
  "columns_text [] = Inr []"
| "columns_text (col # rest) =
     (case col_name col of
        None \<Rightarrow> Inl (KeyError ''name'')
      | Some n \<Rightarrow>
          (case col_type col of
             None \<Rightarrow> Inl (KeyError ''type'')
           | Some t \<Rightarrow>
               (case columns_text rest of
                  Inl e \<Rightarrow> Inl e
                | Inr s \<Rightarrow>
                    Inr (column_text n t (col_primary_key col) (col_nullable col) (rest = [])
                         @ s))))"

definition foreign_key_text :: "string list \<Rightarrow> string \<Rightarrow> string list \<Rightarrow> bool \<Rightarrow> string" where
  "foreign_key_text cc rt rc is_last =
     [CHR 0x27] @ py_repr_list cc @ [CHR 0x27] @ '' references '' @ [CHR 0x27] @ rt @ ''.''
       @ py_repr_list rc @ [CHR 0x27] @ (if \<not> is_last then '', '' else [])"

fun reflected_fks_text :: "reflected_fk list \<Rightarrow> string" where
  "reflected_fks_text [] = []"
| "reflected_fks_text (fk # rest) =
     foreign_key_text (rf_constrained_columns fk) (rf_referred_table fk)
       (rf_referred_columns fk) (rest = [])
       @ reflected_fks_text rest"

fun foreign_keys_text :: "foreign_key list \<Rightarrow> exn + string" where
  "foreign_keys_text [] = Inr []"
| "foreign_keys_text (fk # rest) =
     (case constrained_columns fk of
        None \<Rightarrow> Inl (KeyError ''constrained_columns'')
      | Some cc \<Rightarrow>
          (case referred_table fk of
             None \<Rightarrow> Inl (KeyError ''referred_table'')
           | Some rt \<Rightarrow>
               (case referred_columns fk of
                  None \<Rightarrow> Inl (KeyError ''referred_columns'')
                | Some rc \<Rightarrow>
                    (case foreign_keys_text rest of
                       Inl e \<Rightarrow> Inl e
                     | Inr s \<Rightarrow> Inr (foreign_key_text cc rt rc (rest = []) @ s)))))"

text \<open>
  The body of the first loop of \<open>_get_table_descriptions\<close>: the descriptor of a table of
  the database.
\<close>

definition reflected_description :: "reflected_table \<Rightarrow> table_description" where
  "reflected_description t =
     (let columns_info = rt_columns t;
          pks = map rc_name (filter (\<lambda>col. rc_primary_key col = Some True) columns_info);
          fks = rt_foreign_keys t;
          col_infos =
            map (\<lambda>col. \<lparr>col_name = Some (rc_name col), col_type = Some (rc_type col),
                         col_nullable = Some (rc_nullable col \<noteq> Some False),
                         col_default = rc_default col,
                         col_primary_key = Some (rc_primary_key col = Some True),
                         col_foreign_key =
                           Some (list_ex (\<lambda>fk. rf_constrained_columns fk \<noteq> []
                                           \<and> rc_name col \<in> set (rf_constrained_columns fk)) fks)\<rparr>)
                columns_info;
          text =
            ''Table '' @ [CHR 0x27] @ rt_name t @ [CHR 0x27] @ '' has ''
              @ (if columns_info \<noteq> []
                 then str_nat (length columns_info) @ '' columns: ''
                        @ reflected_columns_text columns_info
                 else [])
              @ (if fks \<noteq> [] then ''. It has foreign keys: '' @ reflected_fks_text fks else [])
              @ (if pks \<noteq> [] then ''. Primary keys: '' @ py_join '', '' pks @ ''.'' else [])
      in \<lparr>name = rt_name t, columns = col_infos, primary_keys = pks,
          foreign_keys =
            map (\<lambda>fk. \<lparr>constrained_columns = Some (rf_constrained_columns fk),
                        referred_table = Some (rf_referred_table fk),
                        referred_columns = Some (rf_referred_columns fk)\<rparr>) fks,
          is_custom = False, text_description = text\<rparr>)"

text \<open>
  The body of the loop over the custom entries, which \<open>_get_table_descriptions\<close> and
  \<open>add_custom_table_descriptions\<close> both contain: \<open>custom_table['name']\<close> is read first,
  the other three keys default to the empty list, and the text is built from the columns,
  the primary keys and the foreign keys, in this order.
\<close>

definition custom_description :: "custom_table \<Rightarrow> exn + table_description" where
  "custom_description custom_table =
     (case ct_name custom_table of
        None \<Rightarrow> Inl (KeyError ''name'')
      | Some n \<Rightarrow>
          (let cols = (case ct_columns custom_table of None \<Rightarrow> [] | Some cs \<Rightarrow> cs);
               pks = (case ct_primary_keys custom_table of None \<Rightarrow> [] | Some ps \<Rightarrow> ps);
               fks = (case ct_foreign_keys custom_table of None \<Rightarrow> [] | Some fs \<Rightarrow> fs)
           in case (if cols \<noteq> [] then columns_text cols else Inr []) of
                Inl e \<Rightarrow> Inl e
              | Inr cols_text \<Rightarrow>
                  (case (if fks \<noteq> [] then foreign_keys_text fks else Inr []) of
                     Inl e \<Rightarrow> Inl e
                   | Inr fks_text \<Rightarrow>
                       Inr \<lparr>name = n, columns = cols, primary_keys = pks, foreign_keys = fks,
                            is_custom = True,
                            text_description =
                              ''Table '' @ [CHR 0x27] @ n @ [CHR 0x27] @ '' has ''
                                @ (if cols \<noteq> []
                                   then str_nat (length cols) @ '' columns: '' @ cols_text
                                   else [])
                                @ (if pks \<noteq> []
                                   then ''. Primary keys: '' @ py_join '', '' pks @ ''.''
                                   else [])
                                @ (if fks \<noteq> []
                                   then ''. It has foreign keys: '' @ fks_text
                                   else [])\<rparr>)))"

text \<open>The loop over the custom entries in \<open>_get_table_descriptions\<close>.\<close>

fun append_custom_descriptions ::
  "table_description list \<Rightarrow> custom_table list \<Rightarrow> exn + table_description list" where
  "append_custom_descriptions descriptions [] = Inr descriptions"
| "append_custom_descriptions descriptions (custom_table # rest) =
     (case custom_description custom_table of
        Inl e \<Rightarrow> Inl e
      | Inr table_description \<Rightarrow>
          append_custom_descriptions (descriptions @ [table_description]) rest)"

text \<open>
  \<open>_get_table_descriptions\<close>: the tables of the database first, then the custom entries
  when the argument is neither \<open>None\<close> nor empty.
\<close>

definition get_table_descriptions ::
  "reflected_table list \<Rightarrow> custom_table list option \<Rightarrow> exn + table_description list" where
  "get_table_descriptions tables custom_table_descriptions =
     (let descriptions = map reflected_description tables
      in case custom_table_descriptions of
           None \<Rightarrow> Inr descriptions
         | Some customs \<Rightarrow>
             if customs \<noteq> [] then append_custom_descriptions descriptions customs
             else Inr descriptions)"

section \<open>The embedding index and retrieval (core/rag_system.py)\<close>

text \<open>
  The state of a \<open>RAGSystem\<close>: the descriptor list and the index, which holds the rows
  added to it, in the order they were added. The embedding model is a parameter
  \<open>embed_text\<close>, the normalised embedding of one text; \<open>model.encode\<close> on a list of texts
  returns one row per text, in order.
\<close>

record 'v rag_system =
  table_descriptions :: "table_description list"
  index :: "'v list"

text \<open>
  \<open>_build_index\<close>: a new index over the embeddings of all text descriptions. For an
  empty list \<open>encode\<close> returns an array of one dimension, so that \<open>embeddings.shape[1]\<close>
  raises \<open>IndexError\<close>.
\<close>

definition build_index ::
  "(string \<Rightarrow> 'v) \<Rightarrow> 'v rag_system \<Rightarrow> (exn + unit) \<times> 'v rag_system" where
  "build_index embed_text rs =
     (let descriptions = map text_description (table_descriptions rs);
          embeddings = map embed_text descriptions
      in if embeddings = [] then (Inl (IndexError ''tuple index out of range''), rs)
         else (Inr (), rs\<lparr>index := embeddings\<rparr>))"

text \<open>\<open>RAGSystem.__init__\<close>\<close>

definition rag_system_init ::
  "(string \<Rightarrow> 'v) \<Rightarrow> reflected_table list \<Rightarrow> custom_table list option \<Rightarrow> exn + 'v rag_system" where
  "rag_system_init embed_text tables custom_table_descriptions =
     (case get_table_descriptions tables custom_table_descriptions of
        Inl e \<Rightarrow> Inl e
      | Inr descriptions \<Rightarrow>
          (case build_index embed_text \<lparr>table_descriptions = descriptions, index = []\<rparr> of
             (Inl e, rs) \<Rightarrow> Inl e
           | (Inr u, rs) \<Rightarrow> Inr rs))"

text \<open>
  The loop of \<open>retrieve_relevant_tables\<close> over \<open>range(min(len(indices[0]), k))\<close>.
  \<open>scores\<close> and \<open>indices\<close> are the rows \<open>scores[0]\<close> and \<open>indices[0]\<close> of the search
  result. A copy of the descriptor with its \<open>similarity_score\<close> is a pair. The test
  against \<open>min_score\<close> is commented out in the source, so the parameter does not occur.
\<close>

fun collect_tables ::
  "table_description list \<Rightarrow> real list \<Rightarrow> int list \<Rightarrow> nat list
     \<Rightarrow> (table_description \<times> real) list \<Rightarrow> exn + (table_description \<times> real) list" where
  "collect_tables descs scores indices [] relevant_tables = Inr relevant_tables"
| "collect_tables descs scores indices (i # rest) relevant_tables =
     (case py_getitem indices (int i) of
        Inl e \<Rightarrow> Inl e
      | Inr idx \<Rightarrow>
          if idx < int (length descs) then
            (case py_getitem descs idx of
               Inl e \<Rightarrow> Inl e
             | Inr table_info \<Rightarrow>
                 (case py_getitem scores (int i) of
                    Inl e \<Rightarrow> Inl e
                  | Inr score \<Rightarrow>
                      collect_tables descs scores indices rest
                        (relevant_tables @ [(table_info, score)])))
          else collect_tables descs scores indices rest relevant_tables)"

text \<open>
  \<open>retrieve_relevant_tables\<close>. The vector index is an external library; \<open>search\<close>
  stands for \<open>self.index.search\<close> on the one query vector and returns the first row of
  its scores and of its labels, or the exception it raises.
\<close>

definition retrieve_relevant_tables ::
  "(string \<Rightarrow> 'v) \<Rightarrow> ('v list \<Rightarrow> 'v \<Rightarrow> nat \<Rightarrow> exn + real list \<times> int list) \<Rightarrow> 'v rag_system
     \<Rightarrow> string \<Rightarrow> nat \<Rightarrow> real \<Rightarrow> exn + (table_description \<times> real) list" where
  "retrieve_relevant_tables embed_text search rs query k min_score =
     (let query_embedding = embed_text query
      in case search (index rs) query_embedding k of
           Inl e \<Rightarrow> Inl e
         | Inr (scores, indices) \<Rightarrow>
             collect_tables (table_descriptions rs) scores indices
               [0..<min (length indices) k] [])"

text \<open>
  The search of the library's exact inner-product index (\<open>faiss.IndexFlatIP\<close>) for one
  query and \<open>k\<close> below 100, the range in which the library selects with a heap. It
  refuses \<open>k = 0\<close> with an \<open>AssertionError\<close>. Otherwise it starts from \<open>k\<close> entries with
  the lowest \<open>float32\<close> as score and the label \<open>-1\<close>, and takes the vectors in the order of
  their labels: a vector replaces the least entry, by score and then label, only when
  its score is strictly greater than the least score. The result has exactly \<open>k\<close>
  entries, in descending order of score and, for equal scores, of label; the entries
  never replaced come last.
\<close>

definition lowest_float32 :: real where
  "lowest_float32 = - 340282346638528859811704183484516925440"

text \<open>The heap as a list in ascending order; its top, the least entry, is the head.\<close>

fun heap_insert :: "real \<times> int \<Rightarrow> (real \<times> int) list \<Rightarrow> (real \<times> int) list" where
  "heap_insert p [] = [p]"
| "heap_insert p (q # qs) =
     (if fst p < fst q \<or> (fst p = fst q \<and> snd p < snd q) then p # q # qs
      else q # heap_insert p qs)"

fun heap_add_result :: "(real \<times> int) list \<Rightarrow> real \<times> int \<Rightarrow> (real \<times> int) list" where
  "heap_add_result [] p = []"
| "heap_add_result (least # rest) p =
     (if fst least < fst p then heap_insert p rest else least # rest)"

definition flat_ip_search ::
  "('v \<Rightarrow> 'v \<Rightarrow> real) \<Rightarrow> 'v list \<Rightarrow> 'v \<Rightarrow> nat \<Rightarrow> exn + real list \<times> int list" where
  "flat_ip_search inner_product vectors q k =
     (if k = 0 then Inl AssertionError
      else
        let scored = zip (map (inner_product q) vectors) (map int [0..<length vectors]);
            heap = foldl heap_add_result (replicate k (lowest_float32, - 1)) scored;
            result = rev heap
        in Inr (map fst result, map snd result))"

text \<open>
  The loop of \<open>add_custom_table_descriptions\<close>: each descriptor is appended to
  \<open>self.table_descriptions\<close> as soon as it is built, so an exception leaves the
  descriptors of the earlier entries in the list.
\<close>

fun extend_descriptions ::
  "'v rag_system \<Rightarrow> custom_table list \<Rightarrow> (exn + unit) \<times> 'v rag_system" where
  "extend_descriptions rs [] = (Inr (), rs)"
| "extend_descriptions rs (custom_table # rest) =
     (case custom_description custom_table of
        Inl e \<Rightarrow> (Inl e, rs)
      | Inr table_description \<Rightarrow>
          extend_descriptions
            (rs\<lparr>table_descriptions := table_descriptions rs @ [table_description]\<rparr>) rest)"

definition add_custom_table_descriptions ::
  "(string \<Rightarrow> 'v) \<Rightarrow> 'v rag_system \<Rightarrow> custom_table list \<Rightarrow> (exn + unit) \<times> 'v rag_system" where
  "add_custom_table_descriptions embed_text rs custom_table_descriptions =
     (case extend_descriptions rs custom_table_descriptions of
        (Inl e, rs') \<Rightarrow> (Inl e, rs')
      | (Inr u, rs') \<Rightarrow> build_index embed_text rs')"


section \<open>The orchestrator (core/nsql_agent.py)\<close>

text \<open>
  The collaborators of an \<open>NSQLAgent\<close>, each returning its result or the exception it
  raises: the retrieval of the RAG system (called with the default \<open>k\<close> and
  \<open>min_score\<close>), the SQL generation of the language model, and the database, which
  executes a statement on a connection of its own and returns the column names and the
  rows, each row already rendered as \<open>str(tuple(row))\<close>. Logging has no effect on the
  result and is left out.
\<close>

record 'd nsql_agent =
  rag_retrieve :: "string \<Rightarrow> exn + 'd list"
  llm_generate_sql :: "string \<Rightarrow> 'd list \<Rightarrow> exn + string"
  db_execute :: "string \<Rightarrow> exn + string list \<times> string list"

text \<open>The calls a run makes, in order, each with the text it was given.\<close>

datatype call =
  CallRetrieve string
  | CallGenerate string
  | CallValidateAndExecute string
  | CallDbExecute string

text \<open>
  \<open>validate_and_execute\<close>: its own \<open>except Exception\<close> clause turns an exception of the
  database that is an instance of \<open>Exception\<close> into a string; any other exception
  leaves the function.
\<close>

definition validate_and_execute ::
  "'d nsql_agent \<Rightarrow> string \<Rightarrow> call list \<times> (exn + string)" where
  "validate_and_execute agent sql_query =
     (let sql_query_lower = py_strip (py_lower sql_query)
      in if startswith sql_query_lower ''delete'' \<or> startswith sql_query_lower ''drop''
         then ([CallValidateAndExecute sql_query],
               Inr (''Only SELECT statements are allowed: '' @ sql_query))
         else
           (case db_execute agent sql_query of
              Inl e \<Rightarrow>
                ([CallValidateAndExecute sql_query, CallDbExecute sql_query],
                 if is_Exception e then Inr (''Error executing SQL query: '' @ str_exn e)
                 else Inl e)
            | Inr (column_names, rows) \<Rightarrow>
                ([CallValidateAndExecute sql_query, CallDbExecute sql_query],
                 Inr (if rows = [] then ''No results found.''
                      else ''Columns: '' @ py_join '', '' column_names @ [CHR 0x0A]
                             @ replicate 50 (CHR ''-'') @ [CHR 0x0A]
                             @ concat (map (\<lambda>row. row @ [CHR 0x0A]) rows)))))"

text \<open>The body of the \<open>try\<close> block of \<open>process_query\<close>.\<close>

definition process_query_body ::
  "'d nsql_agent \<Rightarrow> string \<Rightarrow> call list \<times> (exn + string)" where
  "process_query_body agent natural_query =
     (case rag_retrieve agent natural_query of
        Inl e \<Rightarrow> ([CallRetrieve natural_query], Inl e)
      | Inr relevant_tables \<Rightarrow>
          if relevant_tables = []
          then ([CallRetrieve natural_query],
                Inr ''No relevant tables found for the given query.'')
          else
            (case llm_generate_sql agent natural_query relevant_tables of
               Inl e \<Rightarrow> ([CallRetrieve natural_query, CallGenerate natural_query], Inl e)
             | Inr sql_query \<Rightarrow>
                 (case validate_and_sanitize_query sql_query of
                    (is_valid, sanitized_query) \<Rightarrow>
                      if \<not> is_valid
                      then ([CallRetrieve natural_query, CallGenerate natural_query],
                            Inr (''Generated SQL query contains potentially dangerous operations: ''
                                 @ sql_query))
                      else
                        (case validate_and_execute agent sanitized_query of
                           (calls, Inl e) \<Rightarrow>
                             ([CallRetrieve natural_query, CallGenerate natural_query] @ calls,
                              Inl e)
                         | (calls, Inr result) \<Rightarrow>
                             ([CallRetrieve natural_query, CallGenerate natural_query] @ calls,
                              Inr (''Generated SQL: '' @ sanitized_query
                                   @ [CHR 0x0A, CHR 0x0A] @ ''Result:'' @ [CHR 0x0A]
                                   @ result))))))"

text \<open>
  \<open>process_query\<close>: the \<open>except Exception\<close> clause around the body renders an instance
  of \<open>Exception\<close> as a string; any other exception leaves \<open>process_query\<close>, as the
  \<open>except KeyboardInterrupt\<close> around the call in \<open>cli/main.py\<close> expects.
\<close>

definition process_query :: "'d nsql_agent \<Rightarrow> string \<Rightarrow> call list \<times> (exn + string)" where
  "process_query agent natural_query =
     (case process_query_body agent natural_query of
        (calls, Inl e) \<Rightarrow>
          if is_Exception e then (calls, Inr (''Error processing query: '' @ str_exn e))
          else (calls, Inl e)
      | (calls, Inr result_str) \<Rightarrow> (calls, Inr result_str))"


section \<open>Example inputs\<close>

text \<open>
  The table of \<open>simple_test.py\<close>, a custom descriptor of \<open>test_pipeline.py\<close>, a custom
  entry without a name, an embedding into one dimension (every text has the unit vector
  \<open>1\<close>, the inner product is the product), the RAG system built over the one table, and
  three agents: one whose language model answers \<open>DROP TABLE employees\<close>, one whose
  collaborators raise instances of \<open>Exception\<close>, and one whose retrieval is interrupted
  from the keyboard.
\<close>

definition employees_table :: reflected_table where
  "employees_table =
     \<lparr>rt_name = ''employees'',
      rt_columns =
        [\<lparr>rc_name = ''id'', rc_type = ''INTEGER'', rc_nullable = Some True,
          rc_default = None, rc_primary_key = Some True\<rparr>,
         \<lparr>rc_name = ''name'', rc_type = ''TEXT'', rc_nullable = Some False,
          rc_default = None, rc_primary_key = Some False\<rparr>,
         \<lparr>rc_name = ''department'', rc_type = ''TEXT'', rc_nullable = Some True,
          rc_default = None, rc_primary_key = Some False\<rparr>,
         \<lparr>rc_name = ''salary'', rc_type = ''REAL'', rc_nullable = Some True,
          rc_default = None, rc_primary_key = Some False\<rparr>],
      rt_foreign_keys = []\<rparr>"

definition departments_custom :: custom_table where
  "departments_custom =
     \<lparr>ct_name = Some ''departments'',
      ct_columns =
        Some [\<lparr>col_name = Some ''id'', col_type = Some ''INTEGER'', col_nullable = Some False,
               col_default = None, col_primary_key = Some True, col_foreign_key = None\<rparr>,
              \<lparr>col_name = Some ''name'', col_type = Some ''TEXT'', col_nullable = Some False,
               col_default = None, col_primary_key = None, col_foreign_key = None\<rparr>,
              \<lparr>col_name = Some ''location'', col_type = Some ''TEXT'', col_nullable = Some True,
               col_default = None, col_primary_key = None, col_foreign_key = None\<rparr>],
      ct_primary_keys = Some [''id''],
      ct_foreign_keys = None\<rparr>"

definition nameless_custom :: custom_table where
  "nameless_custom =
     \<lparr>ct_name = None, ct_columns = None, ct_primary_keys = Some [''id''],
      ct_foreign_keys = None\<rparr>"

definition unit_embedding :: "string \<Rightarrow> real" where
  "unit_embedding t = 1"

definition employees_rag :: "real rag_system" where
  "employees_rag =
     \<lparr>table_descriptions = [reflected_description employees_table], index = [1]\<rparr>"

definition drop_agent :: "nat nsql_agent" where
  "drop_agent =
     \<lparr>rag_retrieve = (\<lambda>q. Inr [0]),
      llm_generate_sql = (\<lambda>q tables. Inr ''DROP TABLE employees''),
      db_execute = (\<lambda>sql. Inr ([], []))\<rparr>"

definition failing_agent :: "nat nsql_agent" where
  "failing_agent =
     \<lparr>rag_retrieve =
        (\<lambda>q. if q = ''a'' then Inl (OtherException ''RuntimeError'' ''index failure'')
             else Inr [0]),
      llm_generate_sql =
        (\<lambda>q tables. if q = ''b'' then Inl (KeyError (''it'' @ [CHR 0x27] @ ''s''))
                     else Inr ''SELECT 1''),
      db_execute = (\<lambda>sql. Inl (OtherException ''OperationalError'' ''no such table''))\<rparr>"

definition interrupted_agent :: "nat nsql_agent" where
  "interrupted_agent =
     \<lparr>rag_retrieve = (\<lambda>q. Inl KeyboardInterrupt),
      llm_generate_sql = (\<lambda>q tables. Inr ''SELECT 1''),
      db_execute = (\<lambda>sql. Inr ([], []))\<rparr>"


section \<open>Properties of the string operations\<close>

lemma of_char_lt_256: "(of_char (c::char) :: nat) < 256"
  by (cases c) (simp add: of_char_def horner_sum_eq_sum)

lemma not_space_semicolon: "\<not> is_space (CHR '';'')"
  by (simp add: is_space_def)

lemma is_word_lower_char: "is_word (lower_char c) = is_word c"
proof -
  have "(of_char c :: nat) < 256" by (rule of_char_lt_256)
  then show ?thesis
    by (auto simp: is_word_def lower_char_def Let_def)
qed

lemma py_split_not_Nil: "py_split sep s \<noteq> []"
  by (induction s) (auto split: list.splits)

lemma hd_py_split: "hd (py_split sep s) = takeWhile (\<lambda>c. c \<noteq> sep) s"
  using py_split_not_Nil[of sep] by (induction s) (auto split: list.splits)

lemma dropWhile_append_keep:
  "z \<noteq> [] \<Longrightarrow> \<not> P (hd z) \<Longrightarrow> dropWhile P (x @ z) = dropWhile P x @ z"
  by (induction x) (auto simp: neq_Nil_conv)

lemma py_lstrip_append: "z \<noteq> [] \<Longrightarrow> \<not> is_space (hd z) \<Longrightarrow> py_lstrip (x @ z) = py_lstrip x @ z"
  by (simp add: py_lstrip_def dropWhile_append_keep)

lemma py_rstrip_append: "z \<noteq> [] \<Longrightarrow> \<not> is_space (last z) \<Longrightarrow> py_rstrip (z @ y) = z @ py_rstrip y"
  by (simp add: py_rstrip_def dropWhile_append_keep hd_rev)

lemma last_dropWhile: "dropWhile P xs \<noteq> [] \<Longrightarrow> last (dropWhile P xs) = last xs"
  by (induction xs) (auto split: if_splits)

lemma hd_py_rstrip: "py_rstrip y \<noteq> [] \<Longrightarrow> hd (py_rstrip y) = hd y"
  unfolding py_rstrip_def
  by (metis hd_rev last_dropWhile rev_is_Nil_conv rev_rev_ident)


lemma check_keywords_iff:
  "check_keywords kws q = (\<forall>kw\<in>set kws. \<not> re_search_word kw q)"
  by (induction kws) auto

lemma keyword_shape:
  "kw \<in> set dangerous_keywords \<Longrightarrow>
     kw \<noteq> [] \<and> is_word (hd kw) \<and> is_word (last kw) \<and> \<not> is_space (hd kw) \<and> \<not> is_space (last kw)"
  by (auto simp: dangerous_keywords_def is_word_def is_space_def)

lemma word_boundary_before:
  assumes "kw \<noteq> []" "is_word (hd kw)" "a = [] \<or> \<not> is_word (last a)"
  shows "word_boundary (a @ kw @ b) (length a)"
proof -
  have "(a @ kw @ b) ! length a = hd kw"
    using assms(1) by (simp add: nth_append hd_conv_nth)
  moreover have "0 < length a \<Longrightarrow> (a @ kw @ b) ! (length a - 1) = last a"
    by (simp add: nth_append last_conv_nth)
  ultimately show ?thesis
    using assms by (auto simp: word_boundary_def)
qed

lemma word_boundary_after:
  assumes "kw \<noteq> []" "is_word (last kw)" "b = [] \<or> \<not> is_word (hd b)"
  shows "word_boundary (a @ kw @ b) (length a + length kw)"
proof -
  have "length a + length kw - 1 = length a + (length kw - 1)"
    using assms(1) by (cases kw) auto
  then have "(a @ kw @ b) ! (length a + length kw - 1) = last kw"
    using assms(1) by (simp add: nth_append last_conv_nth)
  moreover have "b \<noteq> [] \<Longrightarrow> (a @ kw @ b) ! (length a + length kw) = hd b"
    by (simp add: nth_append hd_conv_nth)
  ultimately show ?thesis
    using assms by (auto simp: word_boundary_def)
qed

lemma re_search_word_middle:
  assumes "kw \<noteq> []" "is_word (hd kw)" "is_word (last kw)"
    and "a = [] \<or> \<not> is_word (last a)" "b = [] \<or> \<not> is_word (hd b)"
  shows "re_search_word kw (a @ kw @ b)"
proof -
  have "matches_at kw (a @ kw @ b) (length a)"
    unfolding matches_at_def
    using word_boundary_before[OF assms(1,2,4)] word_boundary_after[OF assms(1,3,5)]
    by simp
  moreover have "length a \<in> set [0..<Suc (length (a @ kw @ b))]" by simp
  ultimately show ?thesis
    unfolding re_search_word_def list_ex_iff by blast
qed

lemma py_strip_around:
  assumes "kw \<noteq> []" "\<not> is_space (hd kw)" "\<not> is_space (last kw)"
  shows "py_strip (x @ kw @ y) = py_lstrip x @ kw @ py_rstrip y"
proof -
  have "py_lstrip (x @ kw @ y) = py_lstrip x @ kw @ y"
    using assms(1,2) py_lstrip_append[of "kw @ y" x] by simp
  moreover have "py_rstrip ((py_lstrip x @ kw) @ y) = (py_lstrip x @ kw) @ py_rstrip y"
    using assms(1,3) by (intro py_rstrip_append) auto
  ultimately show ?thesis by (simp add: py_strip_def)
qed

lemma validate_rejects:
  assumes kw: "kw \<in> set dangerous_keywords" and w: "py_lower w = kw"
    and pre: "pre = [] \<or> \<not> is_word (last pre)"
    and post: "post = [] \<or> \<not> is_word (hd post)"
  shows "\<not> validate_sql_query (pre @ w @ post)"
proof -
  note sh = keyword_shape[OF kw]
  let ?a = "py_lstrip (py_lower pre)" and ?b = "py_rstrip (py_lower post)"
  have low: "py_lower (pre @ w @ post) = py_lower pre @ kw @ py_lower post"
    using w by (simp add: py_lower_def)
  have strip: "py_strip (py_lower (pre @ w @ post)) = ?a @ kw @ ?b"
    unfolding low using sh by (intro py_strip_around) auto
  have a: "?a = [] \<or> \<not> is_word (last ?a)"
  proof (cases "?a = []")
    case False
    then have "last ?a = last (py_lower pre)" and "pre \<noteq> []"
      by (auto simp: py_lstrip_def py_lower_def last_dropWhile)
    then show ?thesis
      using pre by (simp add: py_lower_def last_map is_word_lower_char)
  qed simp
  have b: "?b = [] \<or> \<not> is_word (hd ?b)"
  proof (cases "?b = []")
    case False
    then have "hd ?b = hd (py_lower post)"
      by (rule hd_py_rstrip)
    moreover from False have "post \<noteq> []"
      by (auto simp: py_rstrip_def py_lower_def)
    ultimately have "hd ?b = hd (py_lower post)" and "post \<noteq> []"
      by simp_all
    then show ?thesis
      using post by (simp add: py_lower_def hd_map is_word_lower_char)
  qed simp
  have "re_search_word kw (?a @ kw @ ?b)"
    using sh a b by (intro re_search_word_middle) auto
  then show ?thesis
    using kw by (auto simp: validate_sql_query_def strip check_keywords_iff)
qed


lemma sanitize_unfold:
  "sanitize_sql_query q =
     (let s = without_trailing_terminator q
      in if CHR '';'' \<in> set (butlast s) then py_strip (takeWhile (\<lambda>c. c \<noteq> CHR '';'') s) else s)"
  by (simp add: sanitize_sql_query_def without_trailing_terminator_def Let_def hd_py_split)

lemma py_strip_eq_iff:
  "py_strip x = x \<longleftrightarrow> x = [] \<or> (\<not> is_space (hd x) \<and> \<not> is_space (last x))"
proof (cases "x = []")
  case True
  then show ?thesis by (simp add: py_strip_def py_lstrip_def py_rstrip_def)
next
  case False
  show ?thesis
  proof
    assume eq: "py_strip x = x"
    have "py_lstrip x \<noteq> []" using eq False by (auto simp: py_strip_def py_rstrip_def)
    then have l: "\<not> is_space (hd (py_lstrip x))"
      unfolding py_lstrip_def using hd_dropWhile by blast
    have "py_rstrip (py_lstrip x) \<noteq> []"
      using eq False by (simp add: py_strip_def)
    then have "hd (py_strip x) = hd (py_lstrip x)"
      unfolding py_strip_def by (rule hd_py_rstrip)
    then have h: "\<not> is_space (hd x)" using l eq by simp
    have "rev (dropWhile is_space (rev (py_lstrip x))) \<noteq> []"
      using eq False by (simp only: py_strip_def py_rstrip_def not_False_eq_True)
    then have "dropWhile is_space (rev (py_lstrip x)) \<noteq> []"
      by (simp only: rev_is_Nil_conv not_False_eq_True)
    then have "\<not> is_space (hd (dropWhile is_space (rev (py_lstrip x))))"
      using hd_dropWhile by blast
    then have "\<not> is_space (last (py_strip x))"
      by (simp add: py_strip_def py_rstrip_def last_rev)
    then show "x = [] \<or> (\<not> is_space (hd x) \<and> \<not> is_space (last x))"
      using h eq by simp
  next
    assume "x = [] \<or> (\<not> is_space (hd x) \<and> \<not> is_space (last x))"
    then have h: "\<not> is_space (hd x)" and l: "\<not> is_space (last x)" using False by auto
    have "py_lstrip x = x" using h False by (cases x) (auto simp: py_lstrip_def)
    moreover have "py_rstrip x = x"
      using l False by (cases "rev x") (auto simp: py_rstrip_def)
    ultimately show "py_strip x = x" by (simp add: py_strip_def)
  qed
qed

lemma py_lstrip_shape: "py_lstrip x = [] \<or> \<not> is_space (hd (py_lstrip x))"
  unfolding py_lstrip_def using hd_dropWhile by blast

lemma py_rstrip_shape: "py_rstrip x = [] \<or> \<not> is_space (last (py_rstrip x))"
proof (cases "py_rstrip x = []")
  case False
  then have "dropWhile is_space (rev x) \<noteq> []" by (simp add: py_rstrip_def)
  then have "\<not> is_space (hd (dropWhile is_space (rev x)))" using hd_dropWhile by blast
  then show ?thesis by (simp add: py_rstrip_def last_rev)
qed simp

lemma py_strip_shape:
  "py_strip x = [] \<or> (\<not> is_space (hd (py_strip x)) \<and> \<not> is_space (last (py_strip x)))"
proof (cases "py_strip x = []")
  case False
  then have ne: "py_rstrip (py_lstrip x) \<noteq> []"
    by (simp add: py_strip_def)
  then have "hd (py_rstrip (py_lstrip x)) = hd (py_lstrip x)"
    by (rule hd_py_rstrip)
  moreover from ne have "py_lstrip x \<noteq> []"
    by (auto simp: py_rstrip_def)
  ultimately have "hd (py_strip x) = hd (py_lstrip x)" and "py_lstrip x \<noteq> []"
    by (simp_all add: py_strip_def)
  then show ?thesis
    using py_lstrip_shape[of x] py_rstrip_shape[of "py_lstrip x"] by (auto simp: py_strip_def)
qed simp

lemma py_strip_idem: "py_strip (py_strip x) = py_strip x"
  using py_strip_shape[of x] by (simp add: py_strip_eq_iff)

lemma set_py_strip: "set (py_strip x) \<subseteq> set x"
proof -
  have "set (py_rstrip y) \<subseteq> set y" for y
    unfolding py_rstrip_def using set_dropWhileD[of _ is_space "rev y"] by auto
  moreover have "set (py_lstrip x) \<subseteq> set x"
    unfolding py_lstrip_def using set_dropWhileD by fastforce
  ultimately show ?thesis unfolding py_strip_def by blast
qed

lemma sanitize_fixed:
  assumes "py_strip r = r" "CHR '';'' \<notin> set r"
  shows "sanitize_sql_query r = r"
proof -
  have "\<not> endswith r (CHR '';'')" using assms(2) by (metis endswith_def last_in_set)
  moreover have "CHR '';'' \<notin> set (butlast r)" using assms(2) by (auto dest: in_set_butlastD)
  ultimately show ?thesis using assms(1) by (simp add: sanitize_sql_query_def)
qed

lemma sanitize_truncated_fixed:
  "sanitize_sql_query (py_strip (takeWhile (\<lambda>c. c \<noteq> CHR '';'') s)) = py_strip (takeWhile (\<lambda>c. c \<noteq> CHR '';'') s)"
proof (rule sanitize_fixed)
  show "py_strip (py_strip (takeWhile (\<lambda>c. c \<noteq> CHR '';'') s)) = py_strip (takeWhile (\<lambda>c. c \<noteq> CHR '';'') s)"
    by (rule py_strip_idem)
  have "CHR '';'' \<notin> set (takeWhile (\<lambda>c. c \<noteq> CHR '';'') s)"
    by (auto dest: set_takeWhileD)
  then show "CHR '';'' \<notin> set (py_strip (takeWhile (\<lambda>c. c \<noteq> CHR '';'') s))"
    using set_py_strip by blast
qed

lemma py_rstrip_decomp: "\<exists>ws. l = py_rstrip l @ ws \<and> (\<forall>c\<in>set ws. is_space c)"
proof -
  have "rev (rev l) = rev (takeWhile is_space (rev l) @ dropWhile is_space (rev l))"
    by (simp only: takeWhile_dropWhile_id)
  then have "l = py_rstrip l @ rev (takeWhile is_space (rev l))"
    by (simp only: rev_rev_ident rev_append py_rstrip_def)
  moreover have "\<forall>c\<in>set (rev (takeWhile is_space (rev l))). is_space c"
    by (auto dest: set_takeWhileD)
  ultimately show ?thesis by blast
qed

lemma py_lstrip_decomp:
  "\<exists>ws. py_lstrip q = py_strip q @ ws \<and> (\<forall>c\<in>set ws. is_space c)"
  unfolding py_strip_def by (rule py_rstrip_decomp)

lemma py_strip_lstrip: "py_strip (py_lstrip x) = py_strip x"
  by (simp add: py_strip_def py_lstrip_def)

lemma takeWhile_lstrip:
  "takeWhile (\<lambda>c. c \<noteq> CHR '';'') (py_lstrip q) = py_lstrip (takeWhile (\<lambda>c. c \<noteq> CHR '';'') q)"
  unfolding py_lstrip_def
  by (induction q) (auto simp: not_space_semicolon)

lemma strip_before_terminator:
  "py_strip (takeWhile (\<lambda>c. c \<noteq> CHR '';'') q) = py_strip (takeWhile (\<lambda>c. c \<noteq> CHR '';'') (py_lstrip q))"
  by (simp add: takeWhile_lstrip py_strip_lstrip)

lemma wtt_cases:
  obtains (keep) "\<not> endswith (py_strip q) (CHR '';'')" "without_trailing_terminator q = py_strip q"
  | (cut) "py_strip q = without_trailing_terminator q @ [CHR '';'']"
proof (cases "endswith (py_strip q) (CHR '';'')")
  case True
  then have "py_strip q = butlast (py_strip q) @ [CHR '';'']"
    by (metis endswith_def append_butlast_last_id)
  with True cut show ?thesis by (simp add: without_trailing_terminator_def)
next
  case False
  with keep show ?thesis by (simp add: without_trailing_terminator_def)
qed

lemma wtt_hd:
  assumes "without_trailing_terminator q \<noteq> []"
  shows "\<not> is_space (hd (without_trailing_terminator q))"
proof (cases q rule: wtt_cases)
  case keep
  then show ?thesis using assms py_strip_shape[of q] by auto
next
  case cut
  then have "hd (py_strip q) = hd (without_trailing_terminator q)"
    using assms by simp
  then show ?thesis using cut py_strip_shape[of q] by auto
qed

lemma wtt_stripped:
  assumes "without_trailing_terminator q = [] \<or> \<not> is_space (last (without_trailing_terminator q))"
  shows "py_strip (without_trailing_terminator q) = without_trailing_terminator q"
  using assms wtt_hd[of q] by (auto simp: py_strip_eq_iff)

lemma no_terminator:
  assumes "CHR '';'' \<notin> set (butlast s)" "s = [] \<or> last s \<noteq> CHR '';''"
  shows "CHR '';'' \<notin> set s"
proof (cases "s = []")
  case False
  then obtain ys y where "s = ys @ [y]" by (cases s rule: rev_cases) auto
  then show ?thesis using assms by auto
qed simp

lemma sanitize_is_first_statement:
  assumes "CHR '';'' \<in> set (butlast (without_trailing_terminator q))
           \<or> without_trailing_terminator q = []
           \<or> (\<not> is_space (last (without_trailing_terminator q))
               \<and> last (without_trailing_terminator q) \<noteq> CHR '';'')"
  shows "sanitize_sql_query q = py_strip (takeWhile (\<lambda>c. c \<noteq> CHR '';'') q)"
proof -
  let ?s = "without_trailing_terminator q"
  let ?P = "\<lambda>c. c \<noteq> CHR '';''"
  have goal: "py_strip (takeWhile ?P q) = py_strip (takeWhile ?P (py_lstrip q))"
    by (rule strip_before_terminator)
  show ?thesis
  proof (cases "CHR '';'' \<in> set (butlast ?s)")
    case True
    obtain r where r: "py_lstrip q = ?s @ r"
      using py_lstrip_decomp[of q] by (cases q rule: wtt_cases) auto
    have "CHR '';'' \<in> set ?s" using True by (rule in_set_butlastD)
    then have "takeWhile ?P (?s @ r) = takeWhile ?P ?s"
      by (intro takeWhile_append1) auto
    then have "takeWhile ?P (py_lstrip q) = takeWhile ?P ?s"
      by (simp only: r)
    moreover have "sanitize_sql_query q = py_strip (takeWhile ?P ?s)"
      using True by (simp add: sanitize_unfold)
    ultimately show ?thesis by (simp only: goal)
  next
    case False
    have san: "sanitize_sql_query q = ?s" using False by (simp add: sanitize_unfold)
    have "?s = [] \<or> last ?s \<noteq> CHR '';''" using False assms by blast
    then have nt: "CHR '';'' \<notin> set ?s" by (rule no_terminator[OF False])
    have "?s = [] \<or> \<not> is_space (last ?s)" using False assms by blast
    then have st: "py_strip ?s = ?s" by (rule wtt_stripped)
    obtain ws where ws: "py_lstrip q = py_strip q @ ws" "\<forall>c\<in>set ws. is_space c"
      using py_lstrip_decomp[of q] by blast
    have tw: "takeWhile ?P ?s = ?s"
      using nt by (auto simp: takeWhile_eq_all_conv)
    show ?thesis
    proof (cases q rule: wtt_cases)
      case keep
      have "\<forall>c\<in>set (py_strip q @ ws). c \<noteq> CHR '';''"
        using nt ws(2) keep(2) not_space_semicolon by auto
      then have "takeWhile ?P (py_strip q @ ws) = py_strip q @ ws"
        by (simp only: takeWhile_eq_all_conv)
      then have "takeWhile ?P (py_lstrip q) = py_lstrip q"
        by (simp only: ws(1))
      then have "py_strip (takeWhile ?P q) = py_strip q"
        by (simp only: goal py_strip_lstrip)
      then show ?thesis
        by (simp only: san keep(2))
    next
      case cut
      have "takeWhile ?P (?s @ CHR '';'' # ws) = ?s @ takeWhile ?P (CHR '';'' # ws)"
        by (rule takeWhile_append2) (use nt in auto)
      then have "takeWhile ?P (?s @ CHR '';'' # ws) = ?s"
        by simp
      then have "takeWhile ?P (py_lstrip q) = ?s"
        by (simp add: ws(1) cut)
      then show ?thesis
        by (simp only: san goal st)
    qed
  qed
qed

lemma sanitize_no_terminator:
  assumes "CHR '';'' \<notin> set x"
  shows "sanitize_sql_query x = py_strip x"
proof -
  have n: "CHR '';'' \<notin> set (py_strip x)" using assms set_py_strip by blast
  then have "\<not> endswith (py_strip x) (CHR '';'')" by (metis endswith_def last_in_set)
  moreover have "CHR '';'' \<notin> set (butlast (py_strip x))" using n by (auto dest: in_set_butlastD)
  ultimately show ?thesis by (simp add: sanitize_sql_query_def)
qed

lemma sanitize_idem_good:
  assumes "CHR '';'' \<in> set (butlast (without_trailing_terminator q))
           \<or> without_trailing_terminator q = []
           \<or> (\<not> is_space (last (without_trailing_terminator q))
               \<and> last (without_trailing_terminator q) \<noteq> CHR '';'')"
  shows "sanitize_sql_query (sanitize_sql_query q) = sanitize_sql_query q"
  unfolding sanitize_is_first_statement[OF assms] by (rule sanitize_truncated_fixed)

lemma sanitize_bad:
  assumes "CHR '';'' \<notin> set (butlast (without_trailing_terminator q))"
    and "without_trailing_terminator q \<noteq> []"
    and "is_space (last (without_trailing_terminator q)) \<or> last (without_trailing_terminator q) = CHR '';''"
  shows "sanitize_sql_query (sanitize_sql_query q) \<noteq> sanitize_sql_query q"
    and "sanitize_sql_query q \<noteq> py_strip (takeWhile (\<lambda>c. c \<noteq> CHR '';'') q)"
proof -
  let ?s = "without_trailing_terminator q"
  have san: "sanitize_sql_query q = ?s" using assms(1) by (simp add: sanitize_unfold)
  show "sanitize_sql_query (sanitize_sql_query q) \<noteq> sanitize_sql_query q"
  proof (cases "is_space (last ?s)")
    case True
    then have "last ?s \<noteq> CHR '';''" using not_space_semicolon by auto
    then have "?s = [] \<or> last ?s \<noteq> CHR '';''" by simp
    then have "CHR '';'' \<notin> set ?s" by (rule no_terminator[OF assms(1)])
    then have "sanitize_sql_query ?s = py_strip ?s" by (rule sanitize_no_terminator)
    moreover have "py_strip ?s \<noteq> ?s" using True assms(2) by (simp add: py_strip_eq_iff)
    ultimately show ?thesis by (simp add: san)
  next
    case False
    then have l: "last ?s = CHR '';''" using assms(3) by simp
    have "?s = [] \<or> \<not> is_space (last ?s)" using False by simp
    then have st: "py_strip ?s = ?s" by (rule wtt_stripped)
    have e: "endswith ?s (CHR '';'')" using l assms(2) by (simp add: endswith_def)
    have "CHR '';'' \<notin> set (butlast (butlast ?s))" using assms(1) by (auto dest: in_set_butlastD)
    then have "sanitize_sql_query ?s = butlast ?s"
      using e st by (simp add: sanitize_sql_query_def)
    moreover have "butlast ?s \<noteq> ?s" using assms(2) by (cases ?s rule: rev_cases) auto
    ultimately show ?thesis by (simp add: san)
  qed
  show "sanitize_sql_query q \<noteq> py_strip (takeWhile (\<lambda>c. c \<noteq> CHR '';'') q)"
  proof
    assume eq: "sanitize_sql_query q = py_strip (takeWhile (\<lambda>c. c \<noteq> CHR '';'') q)"
    then have "py_strip ?s = ?s" by (simp add: san py_strip_idem)
    then have "\<not> is_space (last ?s)" using assms(2) by (simp add: py_strip_eq_iff)
    then have "last ?s = CHR '';''" using assms(3) by simp
    then have "CHR '';'' \<in> set ?s" using assms(2) last_in_set[of ?s] by simp
    moreover have "CHR '';'' \<notin> set (py_strip (takeWhile (\<lambda>c. c \<noteq> CHR '';'') q))"
      using set_py_strip[of "takeWhile (\<lambda>c. c \<noteq> CHR '';'') q"] by (auto dest: set_takeWhileD)
    ultimately show False using eq san by simp
  qed
qed

lemma strip_empty_all_space:
  assumes "py_strip x = []"
  shows "\<forall>c\<in>set x. is_space c"
proof -
  obtain ws where ws: "py_lstrip x = py_strip x @ ws" "\<forall>c\<in>set ws. is_space c"
    using py_lstrip_decomp[of x] by blast
  then have "\<forall>c\<in>set (dropWhile is_space x). is_space c"
    using assms by (simp add: py_lstrip_def)
  moreover have "\<forall>c\<in>set (takeWhile is_space x). is_space c"
    by (auto dest: set_takeWhileD)
  moreover have "set x = set (takeWhile is_space x) \<union> set (dropWhile is_space x)"
    by (metis set_append takeWhile_dropWhile_id)
  ultimately show ?thesis by blast
qed

section \<open>The safety gate: verified claims\<close>

text \<open>
  C5. Deny-list completeness: whenever one of the thirteen keywords drop, delete,
  truncate, alter, create, insert, update, grant, revoke, commit, rollback, savepoint and
  merge occurs in a string in any mixture of upper and lower case, as a standalone word
  (the character before it, if any, and the character after it, if any, are not word
  characters), \<open>validate_sql_query\<close> returns \<open>False\<close>; and
  \<open>validate_sql_query("select * from t")\<close> returns \<open>True\<close>.
\<close>

theorem deny_list_completeness:
  assumes "keyword \<in> set [''drop'', ''delete'', ''truncate'', ''alter'', ''create'', ''insert'',
                           ''update'', ''grant'', ''revoke'', ''commit'', ''rollback'',
                           ''savepoint'', ''merge'']"
    and "py_lower w = keyword"
    and "pre = [] \<or> \<not> is_word (last pre)"
    and "post = [] \<or> \<not> is_word (hd post)"
  shows "validate_sql_query (pre @ w @ post) = False
         \<and> validate_sql_query ''select * from t'' = True"
proof -
  have k: "keyword \<in> set dangerous_keywords"
    using assms(1) by (simp add: dangerous_keywords_def)
  have "validate_sql_query ''select * from t''"
    by code_simp
  then show ?thesis
    using validate_rejects[OF k assms(2,3,4)] by simp
qed

theorem deny_list_completeness_witness:
  "''merge'' \<in> set [''drop'', ''delete'', ''truncate'', ''alter'', ''create'', ''insert'',
                     ''update'', ''grant'', ''revoke'', ''commit'', ''rollback'',
                     ''savepoint'', ''merge'']
   \<and> py_lower ''MeRgE'' = ''merge''
   \<and> \<not> is_word (last ''SELECT 1; '') \<and> \<not> is_word (hd '' INTO t'')
   \<and> validate_sql_query (''SELECT 1; '' @ ''MeRgE'' @ '' INTO t'') = False
   \<and> validate_sql_query ''select * from t'' = True"
proof -
  have h1: "''merge'' \<in> set [''drop'', ''delete'', ''truncate'', ''alter'', ''create'',
                              ''insert'', ''update'', ''grant'', ''revoke'', ''commit'',
                              ''rollback'', ''savepoint'', ''merge'']"
    by simp
  have h2: "py_lower ''MeRgE'' = ''merge''"
    by code_simp
  have h3: "''SELECT 1; '' = [] \<or> \<not> is_word (last ''SELECT 1; '')"
    by (simp add: is_word_def)
  have h4: "'' INTO t'' = [] \<or> \<not> is_word (hd '' INTO t'')"
    by (simp add: is_word_def)
  show ?thesis
    using h1 h2 h3 h4 deny_list_completeness[OF h1 h2 h3 h4] by simp
qed

text \<open>
  C3. \<open>sanitize_sql_query\<close> is not idempotent on every input: after the trailing semicolon
  of \<open>"SELECT 1 ;"\<close> is removed the text is not trimmed again, so the first application
  returns \<open>"SELECT 1 "\<close> and the second \<open>"SELECT 1"\<close>.
\<close>

theorem sanitize_not_idempotent:
  "sanitize_sql_query (sanitize_sql_query ''SELECT 1 ;'') \<noteq> sanitize_sql_query ''SELECT 1 ;''"
  by code_simp

text \<open>
  C3, as amended. \<open>sanitize(sanitize(q)) = sanitize(q)\<close> holds exactly for the inputs \<open>q\<close>
  whose trimmed text, with one trailing semicolon removed, is empty, or contains a
  semicolon before its last character, or ends in a character that is neither whitespace
  nor a semicolon.
\<close>

theorem sanitize_idempotent_iff:
  "sanitize_sql_query (sanitize_sql_query q) = sanitize_sql_query q \<longleftrightarrow>
     (CHR '';'' \<in> set (butlast (without_trailing_terminator q))
      \<or> without_trailing_terminator q = []
      \<or> (\<not> is_space (last (without_trailing_terminator q))
          \<and> last (without_trailing_terminator q) \<noteq> CHR '';''))"
  using sanitize_idem_good[of q] sanitize_bad(1)[of q] by blast

theorem sanitize_idempotent_witness:
  "CHR '';'' \<in> set (butlast (without_trailing_terminator ''SELECT 1; DROP TABLE t''))
   \<and> sanitize_sql_query (sanitize_sql_query ''SELECT 1; DROP TABLE t'')
       = sanitize_sql_query ''SELECT 1; DROP TABLE t''"
proof -
  have h: "CHR '';'' \<in> set (butlast (without_trailing_terminator ''SELECT 1; DROP TABLE t''))"
    by code_simp
  show ?thesis
    using h sanitize_idempotent_iff[of "''SELECT 1; DROP TABLE t''"] by blast
qed

text \<open>
  C4. Truncation does not hold for every input with a semicolon before its end: in
  \<open>"SELECT 1;;"\<close> the first semicolon is not the last character, the text before it is
  \<open>"SELECT 1"\<close>, and \<open>sanitize_sql_query\<close> returns \<open>"SELECT 1;"\<close>.
\<close>

theorem truncation_counterexample:
  "CHR '';'' \<in> set (butlast ''SELECT 1;;'')
   \<and> py_strip (hd (py_split (CHR '';'') ''SELECT 1;;'')) = ''SELECT 1''
   \<and> sanitize_sql_query ''SELECT 1;;'' = ''SELECT 1;''
   \<and> sanitize_sql_query ''SELECT 1;;'' \<noteq> py_strip (hd (py_split (CHR '';'') ''SELECT 1;;''))"
  by code_simp

text \<open>
  C4, as amended. \<open>sanitize_sql_query(q)\<close> equals the text of \<open>q\<close> before the first
  semicolon (all of \<open>q\<close> when it has none), trimmed, exactly for the inputs \<open>q\<close> whose
  trimmed text, with one trailing semicolon removed, is empty, or contains a semicolon
  before its last character, or ends in a character that is neither whitespace nor a
  semicolon.
\<close>

theorem sanitize_truncation_iff:
  "sanitize_sql_query q = py_strip (hd (py_split (CHR '';'') q)) \<longleftrightarrow>
     (CHR '';'' \<in> set (butlast (without_trailing_terminator q))
      \<or> without_trailing_terminator q = []
      \<or> (\<not> is_space (last (without_trailing_terminator q))
          \<and> last (without_trailing_terminator q) \<noteq> CHR '';''))"
  unfolding hd_py_split
  using sanitize_is_first_statement[of q] sanitize_bad(2)[of q] by blast

theorem sanitize_truncation_witness:
  "CHR '';'' \<in> set (butlast (without_trailing_terminator ''SELECT 1; DROP TABLE t''))
   \<and> sanitize_sql_query ''SELECT 1; DROP TABLE t''
       = py_strip (hd (py_split (CHR '';'') ''SELECT 1; DROP TABLE t''))
   \<and> sanitize_sql_query ''SELECT 1; DROP TABLE t'' = ''SELECT 1''"
proof -
  have h: "CHR '';'' \<in> set (butlast (without_trailing_terminator ''SELECT 1; DROP TABLE t''))"
    by code_simp
  have v: "py_strip (hd (py_split (CHR '';'') ''SELECT 1; DROP TABLE t'')) = ''SELECT 1''"
    by code_simp
  have e: "sanitize_sql_query ''SELECT 1; DROP TABLE t''
             = py_strip (hd (py_split (CHR '';'') ''SELECT 1; DROP TABLE t''))"
    using h sanitize_truncation_iff[of "''SELECT 1; DROP TABLE t''"] by blast
  have "sanitize_sql_query ''SELECT 1; DROP TABLE t'' = ''SELECT 1''"
    using e v by (rule trans)
  then show ?thesis
    using h e by blast
qed

lemma gate_on_blank_prefix:
  assumes blank: "py_strip (hd (py_split (CHR '';'') q)) = []"
    and ne: "py_strip q \<noteq> '';;''"
  shows "CHR '';'' \<in> set (butlast (without_trailing_terminator q))
         \<or> without_trailing_terminator q = []
         \<or> (\<not> is_space (last (without_trailing_terminator q))
             \<and> last (without_trailing_terminator q) \<noteq> CHR '';'')"
proof (rule ccontr)
  let ?s = "without_trailing_terminator q"
  let ?P = "\<lambda>c. c \<noteq> CHR '';''"
  assume "\<not> ?thesis"
  then have s_ne: "?s \<noteq> []" and nb: "CHR '';'' \<notin> set (butlast ?s)"
    by auto
  have sp: "\<forall>c\<in>set (takeWhile ?P q). is_space c"
    using blank strip_empty_all_space by (simp add: hd_py_split)
  show False
  proof (cases "CHR '';'' \<in> set q")
    case False
    then have tw: "takeWhile ?P q = q" by (auto simp: takeWhile_eq_all_conv)
    have "py_strip (takeWhile ?P q) = []" using blank by (simp only: hd_py_split)
    then have "py_strip q = []" unfolding tw .
    then have "?s = []" by (simp add: without_trailing_terminator_def endswith_def)
    then show False using s_ne by simp
  next
    case True
    then have "dropWhile ?P q \<noteq> []" by (auto simp: dropWhile_eq_Nil_conv)
    then obtain rest where rest: "dropWhile ?P q = CHR '';'' # rest"
      using hd_dropWhile[of ?P q] by (cases "dropWhile ?P q") auto
    have "q = takeWhile ?P q @ CHR '';'' # rest"
      using rest takeWhile_dropWhile_id[of ?P q] by simp
    then have "py_lstrip q = dropWhile is_space (takeWhile ?P q @ CHR '';'' # rest)"
      by (simp only: py_lstrip_def)
    also have "\<dots> = dropWhile is_space (CHR '';'' # rest)"
      by (rule dropWhile_append2) (use sp in auto)
    also have "\<dots> = CHR '';'' # rest"
      by (simp add: not_space_semicolon)
    finally have l: "py_lstrip q = [CHR '';''] @ rest" by simp
    have "py_rstrip ([CHR '';''] @ rest) = [CHR '';''] @ py_rstrip rest"
      by (rule py_rstrip_append) (simp_all add: not_space_semicolon)
    then have t: "py_strip q = CHR '';'' # py_rstrip rest"
      by (simp add: py_strip_def l)
    show False
    proof (cases q rule: wtt_cases)
      case keep
      have "py_rstrip rest = []"
      proof (rule ccontr)
        assume "py_rstrip rest \<noteq> []"
        then have "CHR '';'' \<in> set (butlast ?s)" by (simp add: keep(2) t)
        then show False using nb by simp
      qed
      then show False using keep(1) t by (simp add: endswith_def)
    next
      case cut
      then have "hd ?s = CHR '';''" using s_ne t by (cases ?s) auto
      then obtain s' where s': "?s = CHR '';'' # s'" using s_ne by (cases ?s) auto
      have "s' = []"
      proof (rule ccontr)
        assume "s' \<noteq> []"
        then have "CHR '';'' \<in> set (butlast ?s)" by (simp add: s')
        then show False using nb by simp
      qed
      then show False using cut s' ne by simp
    qed
  qed
qed

lemma validate_empty: "validate_sql_query []"
  by code_simp

lemma validate_semicolon: "validate_sql_query '';''"
  by code_simp

text \<open>
  C10. The gate does not return \<open>(True, "")\<close> for every input whose text before the first
  semicolon is blank: for \<open>";;"\<close> it returns \<open>(True, ";")\<close>.
\<close>

theorem empty_statement_counterexample:
  "py_strip (hd (py_split (CHR '';'') '';;'')) = []
   \<and> validate_and_sanitize_query '';;'' = (True, '';'')
   \<and> validate_and_sanitize_query '';;'' \<noteq> (True, [])"
  by code_simp

text \<open>
  C10, as amended. For every input whose text before the first semicolon (the whole input
  when it has none) is empty after trimming, \<open>validate_and_sanitize_query\<close> approves:
  it returns \<open>(True, "")\<close>, except when the trimmed input is exactly \<open>";;"\<close>, where it
  returns \<open>(True, ";")\<close>.
\<close>

theorem empty_statement_approved:
  assumes "py_strip (hd (py_split (CHR '';'') q)) = []"
  shows "validate_and_sanitize_query q = (True, if py_strip q = '';;'' then '';'' else [])"
proof (cases "py_strip q = '';;''")
  case True
  then have "sanitize_sql_query q = '';''"
    by (simp add: sanitize_sql_query_def endswith_def)
  then show ?thesis
    using True validate_semicolon by (simp add: validate_and_sanitize_query_def)
next
  case False
  have "sanitize_sql_query q = py_strip (takeWhile (\<lambda>c. c \<noteq> CHR '';'') q)"
    using gate_on_blank_prefix[OF assms False] by (rule sanitize_is_first_statement)
  then have "sanitize_sql_query q = []"
    using assms by (simp add: hd_py_split)
  then show ?thesis
    using False validate_empty by (simp add: validate_and_sanitize_query_def)
qed

theorem empty_statement_approved_witness:
  "py_strip (hd (py_split (CHR '';'') ''; DROP TABLE t'')) = []
   \<and> validate_and_sanitize_query ''; DROP TABLE t'' = (True, [])"
proof -
  have h: "py_strip (hd (py_split (CHR '';'') ''; DROP TABLE t'')) = []"
    by code_simp
  have n: "py_strip ''; DROP TABLE t'' \<noteq> '';;''"
    by code_simp
  show ?thesis
    using h n empty_statement_approved[OF h] by simp
qed

section \<open>The orchestrator: verified claims\<close>

lemma validate_and_execute_calls:
  "set (fst (validate_and_execute agent sql)) \<subseteq> {CallValidateAndExecute sql, CallDbExecute sql}"
  by (auto simp: validate_and_execute_def Let_def split: sum.splits prod.splits)

lemma process_query_body_rejected:
  assumes "rag_retrieve agent q = Inr tabs" "tabs \<noteq> []"
    and "llm_generate_sql agent q tabs = Inr sql"
    and "fst (validate_and_sanitize_query sql) = False"
  shows "process_query_body agent q =
           ([CallRetrieve q, CallGenerate q],
            Inr (''Generated SQL query contains potentially dangerous operations: '' @ sql))"
  using assms by (cases "validate_and_sanitize_query sql") (simp add: process_query_body_def)

text \<open>
  C1. Whenever a run of \<open>process_query\<close> reaches the safety gate (retrieval returned
  tables, generation returned SQL) and the gate returns \<open>is_valid = False\<close>, the run
  returns the message naming the generated SQL, and it calls neither
  \<open>validate_and_execute\<close> nor the database.
\<close>

theorem rejected_sql_is_not_executed:
  assumes "rag_retrieve agent q = Inr tabs" "tabs \<noteq> []"
    and "llm_generate_sql agent q tabs = Inr sql"
    and "fst (validate_and_sanitize_query sql) = False"
  shows "snd (process_query agent q) =
           Inr (''Generated SQL query contains potentially dangerous operations: '' @ sql)
         \<and> (\<forall>s. CallValidateAndExecute s \<notin> set (fst (process_query agent q)))
         \<and> (\<forall>s. CallDbExecute s \<notin> set (fst (process_query agent q)))"
  using process_query_body_rejected[OF assms] by (simp add: process_query_def)

theorem rejected_sql_is_not_executed_witness:
  "rag_retrieve drop_agent ''Delete everything'' = Inr [0] \<and> [0::nat] \<noteq> []
   \<and> llm_generate_sql drop_agent ''Delete everything'' [0] = Inr ''DROP TABLE employees''
   \<and> fst (validate_and_sanitize_query ''DROP TABLE employees'') = False
   \<and> snd (process_query drop_agent ''Delete everything'') =
        Inr (''Generated SQL query contains potentially dangerous operations: ''
             @ ''DROP TABLE employees'')
   \<and> (\<forall>s. CallValidateAndExecute s \<notin> set (fst (process_query drop_agent ''Delete everything'')))
   \<and> (\<forall>s. CallDbExecute s \<notin> set (fst (process_query drop_agent ''Delete everything'')))"
proof -
  have h1: "rag_retrieve drop_agent ''Delete everything'' = Inr [0]"
    by (simp add: drop_agent_def)
  have h2: "[0::nat] \<noteq> []" by simp
  have h3: "llm_generate_sql drop_agent ''Delete everything'' [0] = Inr ''DROP TABLE employees''"
    by (simp add: drop_agent_def)
  have h4: "fst (validate_and_sanitize_query ''DROP TABLE employees'') = False"
    by code_simp
  show ?thesis
    using h1 h2 h3 h4 rejected_sql_is_not_executed[OF h1 h2 h3 h4] by simp
qed

text \<open>In every run, a statement handed to \<open>validate_and_execute\<close> has passed validation.\<close>

lemma executed_only_if_valid:
  assumes "CallValidateAndExecute s \<in> set (fst (process_query agent q))"
  shows "validate_sql_query s"
proof -
  have step: "validate_sql_query s"
    if "validate_and_execute agent (sanitize_sql_query sql) = (calls, res)"
      and "CallValidateAndExecute s \<in> set calls"
      and "validate_sql_query (sanitize_sql_query sql)" for sql calls res
  proof -
    have "s = sanitize_sql_query sql"
      using that(1,2) validate_and_execute_calls[of agent "sanitize_sql_query sql"] by auto
    then show ?thesis using that(3) by simp
  qed
  show ?thesis
    using assms step
    by (auto simp: process_query_def process_query_body_def validate_and_sanitize_query_def
                   Let_def split: sum.splits prod.splits if_splits)
qed

text \<open>
  C8. \<open>process_query\<close> does raise: its \<open>except Exception\<close> clause does not catch an
  exception outside the \<open>Exception\<close> hierarchy. When the retrieval is interrupted from
  the keyboard, the \<open>KeyboardInterrupt\<close> leaves \<open>process_query\<close>.
\<close>

theorem process_query_propagates_interrupt:
  "rag_retrieve interrupted_agent ''Show all employees'' = Inl KeyboardInterrupt
   \<and> snd (process_query interrupted_agent ''Show all employees'') = Inl KeyboardInterrupt"
  by (simp add: process_query_def process_query_body_def interrupted_agent_def)

text \<open>
  C8, as amended. \<open>process_query\<close> raises no instance of \<open>Exception\<close>: every run
  returns a string, or lets through an exception outside the \<open>Exception\<close> hierarchy
  (\<open>KeyboardInterrupt\<close>, \<open>SystemExit\<close>) that the retrieval, the generation or the database
  raised. An instance of \<open>Exception\<close> raised by the retrieval or by the generation is
  returned as \<open>Error processing query: \<close> followed by its text, and one raised by the
  database as the result text \<open>Error executing SQL query: \<close> followed by its text.
\<close>

theorem process_query_raises_no_Exception:
  "((\<exists>s. snd (process_query agent q) = Inr s)
    \<or> (\<exists>e. snd (process_query agent q) = Inl e \<and> \<not> is_Exception e
            \<and> (rag_retrieve agent q = Inl e
                \<or> (\<exists>tables. llm_generate_sql agent q tables = Inl e)
                \<or> (\<exists>sql. db_execute agent sql = Inl e))))
   \<and> (rag_retrieve agent q1 = Inl e1 \<and> is_Exception e1 \<longrightarrow>
        snd (process_query agent q1) = Inr (''Error processing query: '' @ str_exn e1))
   \<and> (rag_retrieve agent q2 = Inr tabs2 \<and> tabs2 \<noteq> []
        \<and> llm_generate_sql agent q2 tabs2 = Inl e2 \<and> is_Exception e2 \<longrightarrow>
        snd (process_query agent q2) = Inr (''Error processing query: '' @ str_exn e2))
   \<and> (rag_retrieve agent q3 = Inr tabs3 \<and> tabs3 \<noteq> []
        \<and> llm_generate_sql agent q3 tabs3 = Inr sql
        \<and> validate_and_sanitize_query sql = (True, sanitized)
        \<and> \<not> startswith (py_strip (py_lower sanitized)) ''delete''
        \<and> \<not> startswith (py_strip (py_lower sanitized)) ''drop''
        \<and> db_execute agent sanitized = Inl e3 \<and> is_Exception e3 \<longrightarrow>
        snd (process_query agent q3) =
          Inr (''Generated SQL: '' @ sanitized @ [CHR 0x0A, CHR 0x0A] @ ''Result:'' @ [CHR 0x0A]
               @ ''Error executing SQL query: '' @ str_exn e3))"
proof -
  have first: "(\<exists>s. snd (process_query agent q) = Inr s)
    \<or> (\<exists>e. snd (process_query agent q) = Inl e \<and> \<not> is_Exception e
            \<and> (rag_retrieve agent q = Inl e
                \<or> (\<exists>tables. llm_generate_sql agent q tables = Inl e)
                \<or> (\<exists>sql. db_execute agent sql = Inl e)))"
    by (auto simp: process_query_def process_query_body_def validate_and_execute_def Let_def
             split: sum.splits prod.splits if_splits)
  have rest: "(rag_retrieve agent q1 = Inl e1 \<and> is_Exception e1 \<longrightarrow>
        snd (process_query agent q1) = Inr (''Error processing query: '' @ str_exn e1))
   \<and> (rag_retrieve agent q2 = Inr tabs2 \<and> tabs2 \<noteq> []
        \<and> llm_generate_sql agent q2 tabs2 = Inl e2 \<and> is_Exception e2 \<longrightarrow>
        snd (process_query agent q2) = Inr (''Error processing query: '' @ str_exn e2))
   \<and> (rag_retrieve agent q3 = Inr tabs3 \<and> tabs3 \<noteq> []
        \<and> llm_generate_sql agent q3 tabs3 = Inr sql
        \<and> validate_and_sanitize_query sql = (True, sanitized)
        \<and> \<not> startswith (py_strip (py_lower sanitized)) ''delete''
        \<and> \<not> startswith (py_strip (py_lower sanitized)) ''drop''
        \<and> db_execute agent sanitized = Inl e3 \<and> is_Exception e3 \<longrightarrow>
        snd (process_query agent q3) =
          Inr (''Generated SQL: '' @ sanitized @ [CHR 0x0A, CHR 0x0A] @ ''Result:'' @ [CHR 0x0A]
               @ ''Error executing SQL query: '' @ str_exn e3))"
    by (auto simp: process_query_def process_query_body_def validate_and_execute_def Let_def
             split: sum.splits prod.splits)
  show ?thesis
    using first rest by blast
qed

theorem process_query_raises_no_Exception_witness:
  "rag_retrieve failing_agent ''a'' = Inl (OtherException ''RuntimeError'' ''index failure'')
   \<and> snd (process_query failing_agent ''a'') = Inr (''Error processing query: '' @ ''index failure'')
   \<and> rag_retrieve failing_agent ''b'' = Inr [0]
   \<and> llm_generate_sql failing_agent ''b'' [0] = Inl (KeyError (''it'' @ [CHR 0x27] @ ''s''))
   \<and> snd (process_query failing_agent ''b'') =
        Inr (''Error processing query: '' @ [CHR 0x22] @ ''it'' @ [CHR 0x27] @ ''s'' @ [CHR 0x22])
   \<and> rag_retrieve failing_agent ''c'' = Inr [0]
   \<and> llm_generate_sql failing_agent ''c'' [0] = Inr ''SELECT 1''
   \<and> validate_and_sanitize_query ''SELECT 1'' = (True, ''SELECT 1'')
   \<and> db_execute failing_agent ''SELECT 1''
       = Inl (OtherException ''OperationalError'' ''no such table'')
   \<and> snd (process_query failing_agent ''c'') =
        Inr (''Generated SQL: '' @ ''SELECT 1'' @ [CHR 0x0A, CHR 0x0A] @ ''Result:'' @ [CHR 0x0A]
             @ ''Error executing SQL query: '' @ ''no such table'')"
proof -
  have a: "rag_retrieve failing_agent ''a'' = Inl (OtherException ''RuntimeError'' ''index failure'')
           \<and> is_Exception (OtherException ''RuntimeError'' ''index failure'')"
    by (simp add: failing_agent_def)
  have b: "rag_retrieve failing_agent ''b'' = Inr [0] \<and> [0::nat] \<noteq> []
           \<and> llm_generate_sql failing_agent ''b'' [0] = Inl (KeyError (''it'' @ [CHR 0x27] @ ''s''))
           \<and> is_Exception (KeyError (''it'' @ [CHR 0x27] @ ''s''))"
    by (simp add: failing_agent_def)
  have r: "str_exn (KeyError (''it'' @ [CHR 0x27] @ ''s''))
           = [CHR 0x22] @ ''it'' @ [CHR 0x27] @ ''s'' @ [CHR 0x22]"
    by code_simp
  have v: "validate_and_sanitize_query ''SELECT 1'' = (True, ''SELECT 1'')"
    by code_simp
  have s1: "\<not> startswith (py_strip (py_lower ''SELECT 1'')) ''delete''"
    by code_simp
  have s2: "\<not> startswith (py_strip (py_lower ''SELECT 1'')) ''drop''"
    by code_simp
  have c: "rag_retrieve failing_agent ''c'' = Inr [0] \<and> [0::nat] \<noteq> []
           \<and> llm_generate_sql failing_agent ''c'' [0] = Inr ''SELECT 1''
           \<and> db_execute failing_agent ''SELECT 1''
               = Inl (OtherException ''OperationalError'' ''no such table'')
           \<and> is_Exception (OtherException ''OperationalError'' ''no such table'')"
    by (simp add: failing_agent_def)
  have t: "snd (process_query failing_agent ''a'')
             = Inr (''Error processing query: ''
                    @ str_exn (OtherException ''RuntimeError'' ''index failure''))
      \<and> snd (process_query failing_agent ''b'')
             = Inr (''Error processing query: ''
                    @ str_exn (KeyError (''it'' @ [CHR 0x27] @ ''s'')))
      \<and> snd (process_query failing_agent ''c'')
             = Inr (''Generated SQL: '' @ ''SELECT 1'' @ [CHR 0x0A, CHR 0x0A] @ ''Result:''
                    @ [CHR 0x0A] @ ''Error executing SQL query: ''
                    @ str_exn (OtherException ''OperationalError'' ''no such table''))"
    using a b c v s1 s2
      process_query_raises_no_Exception[of failing_agent "''a''" "''a''"
        "OtherException ''RuntimeError'' ''index failure''"
        "''b''" "[0]" "KeyError (''it'' @ [CHR 0x27] @ ''s'')" "''c''" "[0]" "''SELECT 1''"
        "''SELECT 1''" "OtherException ''OperationalError'' ''no such table''"]
    by blast
  show ?thesis
    using a b c v t unfolding r by simp
qed

section \<open>Descriptors and retrieval: verified claims\<close>

lemma employees_rag_init:
  "rag_system_init unit_embedding [employees_table] None = Inr employees_rag"
  by (simp add: rag_system_init_def get_table_descriptions_def build_index_def
                employees_rag_def unit_embedding_def)

lemma upt3: "[0..<3] = [0, 1, 2]"
  by (simp add: upt_rec)

text \<open>
  C2. The claim fails on the code at its default \<open>k = 3\<close> with one table in the index
  (the database of \<open>simple_test.py\<close>): the search pads its labels with \<open>-1\<close>, the guard
  \<open>idx < len(self.table_descriptions)\<close> lets \<open>-1\<close> pass, and \<open>table_descriptions[-1]\<close> is
  the last descriptor. The result has three entries, not one.
\<close>

theorem retrieval_repeats_last_table:
  "retrieve_relevant_tables unit_embedding (flat_ip_search times) employees_rag
     ''Show all employees'' 3 (1 / 4)
   = Inr [(reflected_description employees_table, 1),
          (reflected_description employees_table, lowest_float32),
          (reflected_description employees_table, lowest_float32)]"
  by (simp add: retrieve_relevant_tables_def flat_ip_search_def employees_rag_def
                unit_embedding_def py_getitem_def upt3 numeral_3_eq_3 lowest_float32_def)

text \<open>
  With the same search, an index without descriptors makes \<open>table_descriptions[-1]\<close>
  raise; the result is never longer than \<open>k\<close>; and whenever the index holds at least one
  descriptor the result has exactly \<open>k\<close> entries, however few descriptors there are.
\<close>

lemma retrieval_on_empty_index_raises:
  "retrieve_relevant_tables embed_text (flat_ip_search ip)
     \<lparr>table_descriptions = [], index = []\<rparr> query 3 min_score
   = Inl (IndexError ''list index out of range'')"
  by (simp add: retrieve_relevant_tables_def flat_ip_search_def py_getitem_def upt3
                numeral_3_eq_3)

lemma collect_tables_length:
  "collect_tables descs scores indices is acc = Inr res \<Longrightarrow> length res \<le> length acc + length is"
proof (induction "is" arbitrary: acc)
  case Nil
  then show ?case by simp
next
  case (Cons i rest)
  then show ?case
    by (fastforce split: sum.splits if_splits)
qed

lemma retrieve_at_most_k:
  assumes "retrieve_relevant_tables embed_text search rs query k min_score = Inr res"
  shows "length res \<le> k"
  using assms collect_tables_length
  by (fastforce simp: retrieve_relevant_tables_def Let_def split: sum.splits prod.splits)

lemma py_getitem_nth: "i < length xs \<Longrightarrow> py_getitem xs (int i) = Inr (xs ! i)"
  by (simp add: py_getitem_def)

lemma py_getitem_label:
  assumes "xs \<noteq> []" "- 1 \<le> j" "j < int (length xs)"
  shows "\<exists>x. py_getitem xs j = Inr x"
proof (cases "0 \<le> j")
  case True
  then show ?thesis using assms(3) by (simp add: py_getitem_def)
next
  case False
  then have "j = - 1" using assms(2) by simp
  moreover have "1 \<le> int (length xs)" using assms(1) by (cases xs) auto
  ultimately show ?thesis by (simp add: py_getitem_def)
qed

lemma collect_tables_all:
  assumes "descs \<noteq> []"
    and "\<forall>i\<in>set is. i < length indices \<and> i < length scores
                     \<and> - 1 \<le> indices ! i \<and> indices ! i < int (length descs)"
  shows "\<exists>res. collect_tables descs scores indices is acc = Inr res
               \<and> length res = length acc + length is"
  using assms(2)
proof (induction "is" arbitrary: acc)
  case Nil
  then show ?case by simp
next
  case (Cons i rest)
  then have i: "i < length indices" "i < length scores" "- 1 \<le> indices ! i"
    "indices ! i < int (length descs)"
    by simp_all
  obtain d where d: "py_getitem descs (indices ! i) = Inr d"
    using py_getitem_label[OF assms(1) i(3,4)] by blast
  obtain res where "collect_tables descs scores indices rest (acc @ [(d, scores ! i)]) = Inr res"
    "length res = length (acc @ [(d, scores ! i)]) + length rest"
    using Cons.IH[of "acc @ [(d, scores ! i)]"] Cons.prems by auto
  then show ?case
    using i d by (simp add: py_getitem_nth)
qed

lemma length_heap_insert: "length (heap_insert p qs) = Suc (length qs)"
  by (induction qs) auto

lemma set_heap_insert: "set (heap_insert p qs) = insert p (set qs)"
  by (induction qs) auto

lemma length_heap_add_result: "length (heap_add_result h p) = length h"
  by (cases h) (auto simp: length_heap_insert)

lemma set_heap_add_result: "set (heap_add_result h p) \<subseteq> insert p (set h)"
  by (cases h) (auto simp: set_heap_insert)

lemma length_foldl_heap: "length (foldl heap_add_result h ps) = length h"
  by (induction ps arbitrary: h) (auto simp: length_heap_add_result)

lemma set_foldl_heap: "set (foldl heap_add_result h ps) \<subseteq> set h \<union> set ps"
proof (induction ps arbitrary: h)
  case Nil
  then show ?case by simp
next
  case (Cons p ps)
  have "set (foldl heap_add_result (heap_add_result h p) ps)
          \<subseteq> set (heap_add_result h p) \<union> set ps"
    by (rule Cons.IH)
  then show ?case
    using set_heap_add_result[of h p] by auto
qed

lemma flat_ip_search_shape:
  assumes "0 < k"
  shows "\<exists>scores indices. flat_ip_search ip vs q k = Inr (scores, indices)
           \<and> length scores = k \<and> length indices = k
           \<and> (\<forall>x\<in>set indices. - 1 \<le> x \<and> x < int (length vs))"
proof -
  let ?scored = "zip (map (ip q) vs) (map int [0..<length vs])"
  let ?heap = "foldl heap_add_result (replicate k (lowest_float32, - 1)) ?scored"
  have len: "length (rev ?heap) = k"
    by (simp add: length_foldl_heap)
  have scored: "0 \<le> snd p \<and> snd p < int (length vs)" if "p \<in> set ?scored" for p
  proof -
    from that have "snd p \<in> set (map int [0..<length vs])"
      by (metis prod.collapse set_zip_rightD)
    then show ?thesis by auto
  qed
  have d: "\<forall>x\<in>set (map snd (rev ?heap)). - 1 \<le> x \<and> x < int (length vs)"
  proof
    fix x assume "x \<in> set (map snd (rev ?heap))"
    then obtain p where p: "p \<in> set ?heap" "x = snd p" by auto
    from p(1) have "p \<in> set (replicate k (lowest_float32, - 1)) \<union> set ?scored"
      using set_foldl_heap by blast
    then have "p = (lowest_float32, - 1) \<or> p \<in> set ?scored" by auto
    then show "- 1 \<le> x \<and> x < int (length vs)"
      using scored p(2) by fastforce
  qed
  have a: "flat_ip_search ip vs q k = Inr (map fst (rev ?heap), map snd (rev ?heap))"
    using assms by (simp add: flat_ip_search_def Let_def)
  have b: "length (map fst (rev ?heap)) = k" and c: "length (map snd (rev ?heap)) = k"
    by (simp_all only: length_map len)
  show ?thesis using a b c d by blast
qed

lemma retrieval_always_returns_k:
  assumes "table_descriptions rs \<noteq> []" "0 < k"
    and "length (index rs) = length (table_descriptions rs)"
  shows "\<exists>res. retrieve_relevant_tables embed_text (flat_ip_search ip) rs query k min_score = Inr res
               \<and> length res = k"
proof -
  obtain scores indices where s:
    "flat_ip_search ip (index rs) (embed_text query) k = Inr (scores, indices)"
    "length scores = k" "length indices = k"
    "\<forall>x\<in>set indices. - 1 \<le> x \<and> x < int (length (index rs))"
    using flat_ip_search_shape[OF assms(2), of ip "index rs" "embed_text query"] by blast
  have "\<forall>i\<in>set [0..<min (length indices) k]. i < length indices \<and> i < length scores
          \<and> - 1 \<le> indices ! i \<and> indices ! i < int (length (table_descriptions rs))"
    using s(2,3,4) assms(3) by auto
  from collect_tables_all[OF assms(1) this, of "[]"]
  show ?thesis
    using s(1,3) by (simp add: retrieve_relevant_tables_def)
qed

text \<open>
  C6. The \<open>min_score\<close> parameter of \<open>retrieve_relevant_tables\<close> is not applied: for every
  embedding, search, state, query and \<open>k\<close>, any two values of \<open>min_score\<close> give the same
  result, descriptors and scores alike.
\<close>

theorem min_score_not_applied:
  "retrieve_relevant_tables embed_text search rs query k min_score
   = retrieve_relevant_tables embed_text search rs query k min_score'"
  by (simp add: retrieve_relevant_tables_def)

lemma custom_description_KeyError:
  "custom_description c = Inl e \<Longrightarrow> \<exists>k. e = KeyError k"
proof -
  have c: "columns_text cols = Inl e \<Longrightarrow> \<exists>k. e = KeyError k" for cols
    by (induction cols) (auto split: option.splits sum.splits)
  have f: "foreign_keys_text fks = Inl e \<Longrightarrow> \<exists>k. e = KeyError k" for fks
    by (induction fks) (auto split: option.splits sum.splits)
  assume "custom_description c = Inl e"
  then show ?thesis
    using c f
    by (auto simp: custom_description_def Let_def split: option.splits sum.splits if_splits)
qed

lemma custom_description_no_name:
  "ct_name c = None \<Longrightarrow> custom_description c = Inl (KeyError ''name'')"
  by (simp add: custom_description_def)

lemma append_custom_descriptions_fails:
  assumes "c \<in> set customs" "ct_name c = None"
  shows "\<exists>k. append_custom_descriptions descriptions customs = Inl (KeyError k)"
  using assms
proof (induction customs arbitrary: descriptions)
  case Nil
  then show ?case by simp
next
  case (Cons x rest)
  show ?case
  proof (cases "custom_description x")
    case (Inl e)
    then show ?thesis using custom_description_KeyError[OF Inl] by auto
  next
    case (Inr d)
    then have "x \<noteq> c" using Cons.prems(2) custom_description_no_name by auto
    then have "c \<in> set rest" using Cons.prems(1) by simp
    then show ?thesis using Cons.IH Cons.prems(2) Inr by simp
  qed
qed

lemma extend_descriptions_fails:
  assumes "c \<in> set customs" "ct_name c = None"
  shows "\<exists>k rs'. extend_descriptions rs customs = (Inl (KeyError k), rs')"
  using assms
proof (induction customs arbitrary: rs)
  case Nil
  then show ?case by simp
next
  case (Cons x rest)
  show ?case
  proof (cases "custom_description x")
    case (Inl e)
    then show ?thesis using custom_description_KeyError[OF Inl] by auto
  next
    case (Inr d)
    then have "x \<noteq> c" using Cons.prems(2) custom_description_no_name by auto
    then have "c \<in> set rest" using Cons.prems(1) by simp
    then show ?thesis using Cons.IH Cons.prems(2) Inr by simp
  qed
qed

text \<open>
  C7. The failure is not a \<open>SchemaError\<close>, a class the code does not have: for a custom
  entry without a \<open>name\<close> key, \<open>custom_table['name']\<close> raises Python's \<open>KeyError\<close> with the
  key \<open>name\<close>, at construction time and on a later append.
\<close>

theorem custom_entry_without_name_raises_KeyError:
  "ct_name nameless_custom = None
   \<and> get_table_descriptions [employees_table] (Some [nameless_custom]) = Inl (KeyError ''name'')
   \<and> rag_system_init unit_embedding [employees_table] (Some [nameless_custom])
       = Inl (KeyError ''name'')
   \<and> fst (add_custom_table_descriptions unit_embedding employees_rag [nameless_custom])
       = Inl (KeyError ''name'')
   \<and> exn_class (KeyError ''name'') \<noteq> ''SchemaError''"
  by (simp add: nameless_custom_def get_table_descriptions_def rag_system_init_def
                add_custom_table_descriptions_def custom_description_def)

text \<open>
  C7, as amended. Descriptor building fails with a \<open>KeyError\<close> whenever some entry of the
  custom descriptors has no \<open>name\<close> key: \<open>_get_table_descriptions\<close> and with it the
  construction of the RAG system raise it, and so does a later
  \<open>add_custom_table_descriptions\<close>.
\<close>

theorem custom_entry_without_name_fails:
  assumes "c \<in> set customs" "ct_name c = None"
  shows "(\<exists>k. get_table_descriptions tables (Some customs) = Inl (KeyError k))
         \<and> (\<exists>k. rag_system_init embed_text tables (Some customs) = Inl (KeyError k))
         \<and> (\<exists>k rs'. add_custom_table_descriptions embed_text rs customs = (Inl (KeyError k), rs'))"
proof -
  have ne: "customs \<noteq> []" using assms(1) by auto
  obtain k where k: "get_table_descriptions tables (Some customs) = Inl (KeyError k)"
    using append_custom_descriptions_fails[OF assms] ne
    by (auto simp: get_table_descriptions_def Let_def)
  then have "rag_system_init embed_text tables (Some customs) = Inl (KeyError k)"
    by (simp add: rag_system_init_def)
  moreover obtain k' rs' where "extend_descriptions rs customs = (Inl (KeyError k'), rs')"
    using extend_descriptions_fails[OF assms] by blast
  then have "add_custom_table_descriptions embed_text rs customs = (Inl (KeyError k'), rs')"
    by (simp add: add_custom_table_descriptions_def)
  ultimately show ?thesis using k by blast
qed

theorem custom_entry_without_name_fails_witness:
  "nameless_custom \<in> set [departments_custom, nameless_custom] \<and> ct_name nameless_custom = None
   \<and> (\<exists>k. get_table_descriptions [employees_table] (Some [departments_custom, nameless_custom])
            = Inl (KeyError k))
   \<and> (\<exists>k. rag_system_init unit_embedding [employees_table]
              (Some [departments_custom, nameless_custom]) = Inl (KeyError k))
   \<and> (\<exists>k rs'. add_custom_table_descriptions unit_embedding employees_rag
                 [departments_custom, nameless_custom] = (Inl (KeyError k), rs'))"
proof -
  have h1: "nameless_custom \<in> set [departments_custom, nameless_custom]" by simp
  have h2: "ct_name nameless_custom = None" by (simp add: nameless_custom_def)
  show ?thesis
    using h1 h2 custom_entry_without_name_fails[OF h1 h2] by blast
qed

lemma extend_descriptions_ok:
  assumes "extend_descriptions rs new = (Inr u, rs')"
  shows "\<exists>ds. table_descriptions rs' = table_descriptions rs @ ds \<and> length ds = length new
              \<and> map custom_description new = map Inr ds \<and> index rs' = index rs"
  using assms
proof (induction new arbitrary: rs)
  case Nil
  then show ?case by simp
next
  case (Cons x rest)
  then obtain d where d: "custom_description x = Inr d"
    by (cases "custom_description x") auto
  let ?rs = "rs\<lparr>table_descriptions := table_descriptions rs @ [d]\<rparr>"
  have "extend_descriptions ?rs rest = (Inr u, rs')"
    using Cons.prems d by simp
  from Cons.IH[OF this] obtain ds where
    "table_descriptions rs' = table_descriptions ?rs @ ds" "length ds = length rest"
    "map custom_description rest = map Inr ds" "index rs' = index ?rs"
    by blast
  then have "table_descriptions rs' = table_descriptions rs @ (d # ds)
             \<and> length (d # ds) = length (x # rest)
             \<and> map custom_description (x # rest) = map Inr (d # ds) \<and> index rs' = index rs"
    using d by simp
  then show ?case by blast
qed

text \<open>
  C9. When \<open>add_custom_table_descriptions(new)\<close> returns, the descriptor list has grown
  by exactly \<open>len(new)\<close> entries, the descriptors it held before are unchanged and in
  place, the new entries are the descriptors of \<open>new\<close> in order, and the index was rebuilt
  over the whole list: it has one slot per descriptor and slot \<open>i\<close> is the embedding of
  the text of \<open>table_descriptions[i]\<close>.
\<close>

theorem append_and_rebuild:
  assumes "add_custom_table_descriptions embed_text rs new = (Inr (), rs')"
  shows "length (table_descriptions rs') = length (table_descriptions rs) + length new
         \<and> take (length (table_descriptions rs)) (table_descriptions rs') = table_descriptions rs
         \<and> map Inr (drop (length (table_descriptions rs)) (table_descriptions rs'))
             = map custom_description new
         \<and> length (index rs') = length (table_descriptions rs')
         \<and> (\<forall>i < length (table_descriptions rs').
               index rs' ! i = embed_text (text_description (table_descriptions rs' ! i)))"
proof -
  obtain r mid where mid: "extend_descriptions rs new = (r, mid)"
    by (cases "extend_descriptions rs new")
  then obtain u where r: "r = Inr u"
    using assms by (cases r) (auto simp: add_custom_table_descriptions_def)
  then have b: "build_index embed_text mid = (Inr (), rs')"
    using assms mid by (simp add: add_custom_table_descriptions_def)
  then have descs: "table_descriptions rs' = table_descriptions mid"
    and idx: "index rs' = map embed_text (map text_description (table_descriptions mid))"
    by (auto simp: build_index_def Let_def split: if_splits)
  obtain ds where ds: "table_descriptions mid = table_descriptions rs @ ds"
    "length ds = length new" "map custom_description new = map Inr ds"
    using extend_descriptions_ok mid r by blast
  have nth: "\<forall>i < length (table_descriptions rs').
               index rs' ! i = embed_text (text_description (table_descriptions rs' ! i))"
    by (simp add: descs idx)
  have len: "length (index rs') = length (table_descriptions rs')"
    by (simp add: descs idx)
  have "length (table_descriptions rs') = length (table_descriptions rs) + length new"
    and "take (length (table_descriptions rs)) (table_descriptions rs') = table_descriptions rs"
    and "map Inr (drop (length (table_descriptions rs)) (table_descriptions rs'))
           = map custom_description new"
    using ds by (simp_all add: descs)
  then show ?thesis
    using nth len by blast
qed

theorem append_and_rebuild_witness:
  "fst (add_custom_table_descriptions unit_embedding employees_rag [departments_custom]) = Inr ()
   \<and> length (table_descriptions
        (snd (add_custom_table_descriptions unit_embedding employees_rag [departments_custom])))
      = length (table_descriptions employees_rag) + length [departments_custom]
   \<and> length (index
        (snd (add_custom_table_descriptions unit_embedding employees_rag [departments_custom])))
      = 2"
proof -
  let ?r = "add_custom_table_descriptions unit_embedding employees_rag [departments_custom]"
  have f: "fst ?r = Inr ()"
    by code_simp
  then have h: "?r = (Inr (), snd ?r)"
    by (metis prod.collapse)
  have "length (table_descriptions employees_rag) = 1"
    by (simp add: employees_rag_def)
  then show ?thesis
    using f append_and_rebuild[OF h] by simp
qed

end
